theory Spec2Isabelle
  imports Main "HOL-Library.Sublist"
begin

section \<open>Python string operations used by the agents\<close>

text \<open>
  Query texts are modelled as \<open>string\<close> (a list of 8-bit characters); the agents only
  inspect the ASCII characters of a query (quote, percent sign, braces, letters), so the
  model covers ASCII query text. Each function below follows the documented behaviour of
  the Python built-in of the same name.
\<close>

definition quote :: char where
  "quote = CHR 0x27"

text \<open>\<open>s.replace(old, new)\<close>: leftmost, non-overlapping occurrences of a non-empty
  \<open>old\<close> are replaced, scanning from the left; an empty \<open>old\<close> inserts \<open>new\<close>
  before every character and at the end.\<close>

function replace_scan :: "string \<Rightarrow> string \<Rightarrow> string \<Rightarrow> string" where
  "replace_scan old new [] = []"
| "replace_scan old new (c # cs) =
     (if old \<noteq> [] \<and> prefix old (c # cs)
      then new @ replace_scan old new (drop (length old) (c # cs))
      else c # replace_scan old new cs)"
  by pat_completeness auto
termination
  by (relation "measure (\<lambda>(old, new, s). length s)") (auto simp: neq_Nil_conv)

definition py_replace :: "string \<Rightarrow> string \<Rightarrow> string \<Rightarrow> string" where
  "py_replace s old new =
     (if old = [] then new @ concat (map (\<lambda>c. c # new) s) else replace_scan old new s)"

text \<open>\<open>s.count(sub)\<close>: the number of non-overlapping occurrences, scanning from the
  left; for an empty \<open>sub\<close> Python answers \<open>len(s) + 1\<close>.\<close>

function count_scan :: "string \<Rightarrow> string \<Rightarrow> nat" where
  "count_scan sub [] = 0"
| "count_scan sub (c # cs) =
     (if sub \<noteq> [] \<and> prefix sub (c # cs)
      then Suc (count_scan sub (drop (length sub) (c # cs)))
      else count_scan sub cs)"
  by pat_completeness auto
termination
  by (relation "measure (\<lambda>(sub, s). length s)") (auto simp: neq_Nil_conv)

definition py_count :: "string \<Rightarrow> string \<Rightarrow> nat" where
  "py_count s sub = (if sub = [] then Suc (length s) else count_scan sub s)"

text \<open>\<open>s.split(sep)\<close> for the one-character separator the agent uses: the pieces
  between the separators, always at least one piece. A character that is not the
  separator goes to the front of the first piece of what follows.\<close>

definition push_front :: "char \<Rightarrow> string list \<Rightarrow> string list" where
  "push_front c pieces = (c # hd pieces) # tl pieces"

fun py_split :: "string \<Rightarrow> char \<Rightarrow> string list" where
  "py_split [] d = [[]]"
| "py_split (c # cs) d =
     (if c = d then [] # py_split cs d
      else push_front c (py_split cs d))"

text \<open>\<open>sub in s\<close>, \<open>s.startswith(p)\<close>, \<open>s.upper()\<close> and \<open>s.strip()\<close>.\<close>

fun py_in :: "string \<Rightarrow> string \<Rightarrow> bool" where
  "py_in sub [] = (sub = [])"
| "py_in sub (c # cs) = (prefix sub (c # cs) \<or> py_in sub cs)"

definition startswith :: "string \<Rightarrow> string \<Rightarrow> bool" where
  "startswith s p = prefix p s"

definition upper_char :: "char \<Rightarrow> char" where
  "upper_char c =
     (let n = (of_char c :: nat)
      in if 97 \<le> n \<and> n \<le> 122 then char_of (n - 32) else c)"

definition upper :: "string \<Rightarrow> string" where
  "upper s = map upper_char s"

definition is_space :: "char \<Rightarrow> bool" where
  "is_space c = (let n = (of_char c :: nat) in (9 \<le> n \<and> n \<le> 13) \<or> (28 \<le> n \<and> n \<le> 32))"

definition strip :: "string \<Rightarrow> string" where
  "strip s = rev (dropWhile is_space (rev (dropWhile is_space s)))"

section \<open>Parameter preparation: \<open>QueryExecutionAgent._prepare_query_parameters\<close>\<close>

text \<open>The callback of \<open>re.sub\<close>: the content of a literal with every percent sign
  doubled, put back between single quotes.\<close>

definition escape_string_literal :: "string \<Rightarrow> string" where
  "escape_string_literal content = quote # py_replace content ''%'' ''%%'' @ [quote]"

text \<open>
  \<open>re.sub(r"'([^']*)'", escape_string_literal, s)\<close>: the regular expression matches a
  quote, the longest run of non-quote characters (newlines included) and a closing quote.
  Matches are taken leftmost and do not overlap. At a quote with no later quote the match
  fails and the scan moves one character on.
\<close>

function re_sub_literals :: "string \<Rightarrow> string" where
  "re_sub_literals [] = []"
| "re_sub_literals (c # cs) =
     (if c = quote then
        (let content = takeWhile (\<lambda>x. x \<noteq> quote) cs;
             rest = dropWhile (\<lambda>x. x \<noteq> quote) cs
         in if rest = [] then c # re_sub_literals cs
            else escape_string_literal content @ re_sub_literals (tl rest))
      else c # re_sub_literals cs)"
  by pat_completeness auto
termination
proof (relation "measure length")
  show "wf (measure length)" by simp
next
  fix c :: char and cs x xa
  assume "xa = dropWhile (\<lambda>x. x \<noteq> quote) cs" "xa \<noteq> []"
  then have "length (tl xa) < length xa" and "length xa \<le> length cs"
    by (simp_all add: length_dropWhile_le)
  then show "(tl xa, c # cs) \<in> measure length" by simp
qed simp_all

text \<open>The counting loop: \<open>%s\<close> is counted in the pieces at even index.\<close>

fun count_placeholders :: "nat \<Rightarrow> string list \<Rightarrow> nat \<Rightarrow> nat" where
  "count_placeholders i [] placeholder_count = placeholder_count"
| "count_placeholders i (part # parts) placeholder_count =
     count_placeholders (Suc i) parts
       (if i mod 2 = 0 then placeholder_count + py_count part ''%s'' else placeholder_count)"

definition prepare_query_parameters :: "string \<Rightarrow> int \<Rightarrow> string \<times> int list" where
  "prepare_query_parameters sql_query user_id =
     (let safe_query = py_replace sql_query ''{user_id}'' ''%s'';
          safe_query = re_sub_literals safe_query;
          parts = py_split safe_query quote;
          placeholder_count = count_placeholders 0 parts 0;
          params = replicate placeholder_count user_id
      in (safe_query, params))"

section \<open>Keyword checks\<close>

definition dangerous_keywords :: "string list" where
  "dangerous_keywords =
     [''DROP'', ''DELETE'', ''INSERT'', ''UPDATE'', ''ALTER'', ''CREATE'', ''TRUNCATE'']"

text \<open>The keyword loop of \<open>SQLGenerationAgent._validate_sql_structure\<close>: a keyword
  between two spaces, or at the start followed by a space, makes the query invalid.\<close>

fun keyword_loop :: "string list \<Rightarrow> string \<Rightarrow> bool" where
  "keyword_loop [] sql_upper = True"
| "keyword_loop (keyword # keywords) sql_upper =
     (if py_in ('' '' @ keyword @ '' '') sql_upper \<or> startswith sql_upper (keyword @ '' '')
      then False
      else keyword_loop keywords sql_upper)"

definition validate_sql_structure :: "string \<Rightarrow> bool" where
  "validate_sql_structure sql_query =
     (if sql_query = [] then False
      else let sql_upper = upper sql_query
           in if \<not> startswith sql_upper ''SELECT'' then False
              else if \<not> py_in ''FROM'' sql_upper then False
              else if \<not> py_in ''WHERE'' sql_upper \<or> \<not> py_in ''USER_ID'' sql_upper then False
              else keyword_loop dangerous_keywords sql_upper)"

section \<open>Values, collaborators and the world\<close>

text \<open>
  A database cell is null, an integer, a string, or a date/time object, which carries the
  text its \<open>isoformat()\<close> returns. A row is a dictionary from column names to cells.
\<close>

datatype sqlval = VNull | VInt int | VStr string | VDateTime string | VDate string

type_synonym row = "(string \<times> sqlval) list"

datatype pyval =
    PBool bool
  | PInt int
  | PStr string
  | PNames "string list"
  | PRows "row list"
  | PCell sqlval

type_synonym pydict = "string \<rightharpoonup> pyval"

fun truthy :: "pyval \<Rightarrow> bool" where
  "truthy (PBool b) = b"
| "truthy (PInt n) = (n \<noteq> 0)"
| "truthy (PStr s) = (s \<noteq> [])"
| "truthy (PNames l) = (l \<noteq> [])"
| "truthy (PRows l) = (l \<noteq> [])"
| "truthy (PCell VNull) = False"
| "truthy (PCell (VInt n)) = (n \<noteq> 0)"
| "truthy (PCell (VStr s)) = (s \<noteq> [])"
| "truthy (PCell (VDateTime s)) = True"
| "truthy (PCell (VDate s)) = True"

text \<open>What \<open>DatabaseManager.execute_query_with_validation\<close> returns: a dictionary
  with \<open>success\<close> true and the rows, the row count and the column names, or with
  \<open>success\<close> false and an error text.\<close>

datatype execution_result =
    ExecutionSuccess "row list" int "string list"
  | ExecutionFailure string

text \<open>
  The two collaborators of the agent, \<open>QuerySecurityGuard\<close> and \<open>DatabaseManager\<close>,
  and the clock are parameters of the model. A call that raises an exception \<open>e\<close> returns
  \<open>Inl\<close> of \<open>str(e)\<close>; only exceptions derived from \<open>Exception\<close> are modelled. The
  guard answers \<open>(is_safe, reason)\<close>. The driver sees the template and the parameters of
  the call and the calls dispatched before it.
\<close>

record env =
  validate_query :: "string \<Rightarrow> int \<Rightarrow> string + (bool \<times> string)"
  execute_query_with_validation ::
    "(string \<times> int list) list \<Rightarrow> string \<Rightarrow> int list \<Rightarrow> string + execution_result"
  isoformat :: "nat \<Rightarrow> string"

text \<open>The world outside the agent: the calls that reached the driver, in order, and the
  number of readings taken from the clock so far.\<close>

record world =
  dispatched :: "(string \<times> int list) list"
  clock :: nat

definition now :: "env \<Rightarrow> world \<Rightarrow> string \<times> world" where
  "now e w = (isoformat e (clock w), w\<lparr>clock := Suc (clock w)\<rparr>)"

definition dispatch ::
  "env \<Rightarrow> string \<Rightarrow> int list \<Rightarrow> world \<Rightarrow> (string + execution_result) \<times> world" where
  "dispatch e safe_query params w =
     (execute_query_with_validation e (dispatched w) safe_query params,
      w\<lparr>dispatched := dispatched w @ [(safe_query, params)]\<rparr>)"

section \<open>The execution agent\<close>

fun process_value :: "sqlval \<Rightarrow> sqlval" where
  "process_value (VDateTime txt) = VStr txt"
| "process_value (VDate txt) = VStr txt"
| "process_value v = v"

definition process_query_results :: "row list \<Rightarrow> row list" where
  "process_query_results results =
     (if results = [] then []
      else map (\<lambda>row. map (\<lambda>(key, v). (key, process_value v)) row) results)"

definition estimate_result_size :: "int \<Rightarrow> string list \<Rightarrow> string" where
  "estimate_result_size row_count columns =
     (if row_count = 0 then ''No data''
      else if row_count < 10 then ''Small dataset''
      else if row_count < 100 then ''Medium dataset''
      else if row_count < 1000 then ''Large dataset''
      else ''Very large dataset'')"

text \<open>The body of the \<open>try\<close> block of \<open>execute_query\<close>: \<open>Inl\<close> is an exception on
  its way to the handler.\<close>

definition execute_query_body ::
  "env \<Rightarrow> string \<Rightarrow> int \<Rightarrow> world \<Rightarrow> (string + pydict) \<times> world" where
  "execute_query_body e sql_query user_id w =
     (case validate_query e sql_query user_id of
        Inl msg \<Rightarrow> (Inl msg, w)
      | Inr (is_safe, reason) \<Rightarrow>
          if \<not> is_safe then
            (let (ts, w1) = now e w
             in (Inr [''success'' \<mapsto> PBool False,
                      ''error'' \<mapsto> PStr (''Query blocked for security: '' @ reason),
                      ''query'' \<mapsto> PStr sql_query,
                      ''user_id'' \<mapsto> PInt user_id,
                      ''timestamp'' \<mapsto> PStr ts], w1))
          else
            (let (safe_query, params) = prepare_query_parameters sql_query user_id;
                 (execution_result, w1) = dispatch e safe_query params w
             in case execution_result of
                  Inl msg \<Rightarrow> (Inl msg, w1)
                | Inr (ExecutionSuccess results row_count columns) \<Rightarrow>
                    (let processed_results = process_query_results results;
                         (ts, w2) = now e w1;
                         (et, w3) = now e w2
                     in (Inr [''success'' \<mapsto> PBool True,
                              ''results'' \<mapsto> PRows processed_results,
                              ''raw_results'' \<mapsto> PRows results,
                              ''row_count'' \<mapsto> PInt row_count,
                              ''columns'' \<mapsto> PNames columns,
                              ''query'' \<mapsto> PStr sql_query,
                              ''user_id'' \<mapsto> PInt user_id,
                              ''timestamp'' \<mapsto> PStr ts,
                              ''execution_time'' \<mapsto> PStr et], w3))
                | Inr (ExecutionFailure err) \<Rightarrow>
                    (let (ts, w2) = now e w1
                     in (Inr [''success'' \<mapsto> PBool False,
                              ''error'' \<mapsto> PStr err,
                              ''query'' \<mapsto> PStr sql_query,
                              ''user_id'' \<mapsto> PInt user_id,
                              ''timestamp'' \<mapsto> PStr ts], w2))))"

text \<open>\<open>execute_query\<close>: the body, and the handler \<open>except Exception as e\<close>.\<close>

definition execute_query :: "env \<Rightarrow> string \<Rightarrow> int \<Rightarrow> world \<Rightarrow> pydict \<times> world" where
  "execute_query e sql_query user_id w =
     (case execute_query_body e sql_query user_id w of
        (Inr result, w1) \<Rightarrow> (result, w1)
      | (Inl msg, w1) \<Rightarrow>
          (let (ts, w2) = now e w1
           in ([''success'' \<mapsto> PBool False,
                ''error'' \<mapsto> PStr msg,
                ''query'' \<mapsto> PStr sql_query,
                ''user_id'' \<mapsto> PInt user_id,
                ''timestamp'' \<mapsto> PStr ts], w2)))"

text \<open>\<open>str(KeyError(key))\<close> is the key between quotes.\<close>

definition key_error :: "string \<Rightarrow> string" where
  "key_error k = quote # k @ [quote]"

text \<open>
  \<open>execute_multiple_queries\<close>: the \<open>for\<close> loop over \<open>enumerate(queries)\<close> with the
  list of results built so far; \<open>break\<close> leaves the loop. The function has no handler of
  its own, so a missing \<open>success\<close> key would leave it as a \<open>KeyError\<close>.
\<close>

fun execute_multiple_queries_loop ::
  "env \<Rightarrow> int \<Rightarrow> nat \<Rightarrow> string list \<Rightarrow> pydict list \<Rightarrow> world
     \<Rightarrow> (string + pydict list) \<times> world" where
  "execute_multiple_queries_loop e user_id i [] results w = (Inr results, w)"
| "execute_multiple_queries_loop e user_id i (query # queries) results w =
     (let (result, w1) = execute_query e query user_id w;
          result = result(''query_index'' \<mapsto> PInt (int i));
          results = results @ [result]
      in case result ''success'' of
           None \<Rightarrow> (Inl (key_error ''success''), w1)
         | Some v \<Rightarrow>
             if \<not> truthy v then (Inr results, w1)
             else execute_multiple_queries_loop e user_id (Suc i) queries results w1)"

definition execute_multiple_queries ::
  "env \<Rightarrow> string list \<Rightarrow> int \<Rightarrow> world \<Rightarrow> (string + pydict list) \<times> world" where
  "execute_multiple_queries e queries user_id w =
     execute_multiple_queries_loop e user_id 0 queries [] w"

text \<open>\<open>test_query_syntax\<close>; nothing in its body can raise on a string.\<close>

definition test_query_syntax :: "env \<Rightarrow> string \<Rightarrow> world \<Rightarrow> pydict \<times> world" where
  "test_query_syntax e sql_query w =
     (let sql_upper = strip (upper sql_query);
          found_dangerous = filter (\<lambda>kw. py_in kw sql_upper) dangerous_keywords;
          has_select = startswith sql_upper ''SELECT'';
          has_from = py_in ''FROM'' sql_upper;
          has_where = py_in ''WHERE'' sql_upper;
          has_user_id = py_in ''USER_ID'' sql_upper;
          syntax_valid = (has_select \<and> has_from \<and> found_dangerous = []);
          (ts, w1) = now e w
      in ([''syntax_valid'' \<mapsto> PBool syntax_valid,
           ''has_select'' \<mapsto> PBool has_select,
           ''has_from'' \<mapsto> PBool has_from,
           ''has_where'' \<mapsto> PBool has_where,
           ''has_user_id'' \<mapsto> PBool has_user_id,
           ''dangerous_keywords'' \<mapsto> PNames found_dangerous,
           ''query'' \<mapsto> PStr sql_query,
           ''timestamp'' \<mapsto> PStr ts], w1))"

text \<open>
  \<open>get_query_statistics\<close>. \<open>result["results"][0]["total_rows"]\<close> raises a
  \<open>KeyError\<close> when the first row has no such column, and the comparisons of
  \<open>_estimate_result_size\<close> raise a \<open>TypeError\<close> on a value that is not a number.
\<close>

definition total_rows_of :: "row list \<Rightarrow> string + sqlval" where
  "total_rows_of results =
     (case results of
        [] \<Rightarrow> Inr (VInt 0)
      | first # _ \<Rightarrow>
          (case map_of first ''total_rows'' of
             None \<Rightarrow> Inl (key_error ''total_rows'')
           | Some v \<Rightarrow> Inr v))"

fun type_name :: "sqlval \<Rightarrow> string" where
  "type_name VNull = ''NoneType''"
| "type_name (VInt n) = ''int''"
| "type_name (VStr s) = ''str''"
| "type_name (VDateTime s) = ''datetime.datetime''"
| "type_name (VDate s) = ''datetime.date''"

definition estimate_of :: "sqlval \<Rightarrow> string list \<Rightarrow> string + string" where
  "estimate_of total_rows columns =
     (case total_rows of
        VInt n \<Rightarrow> Inr (estimate_result_size n columns)
      | v \<Rightarrow> Inl (quote # ''<'' @ quote # '' not supported between instances of '' @
                 quote # type_name v @ quote # '' and '' @ quote # ''int'' @ [quote]))"

definition get_query_statistics_body ::
  "env \<Rightarrow> string \<Rightarrow> int \<Rightarrow> world \<Rightarrow> (string + pydict) \<times> world" where
  "get_query_statistics_body e sql_query user_id w =
     (let stats_query = ''SELECT COUNT(*) as total_rows FROM ('' @ sql_query @ '') as subquery'';
          (safe_query, params) = prepare_query_parameters stats_query user_id;
          (result, w1) = dispatch e safe_query params w
      in case result of
           Inl msg \<Rightarrow> (Inl msg, w1)
         | Inr (ExecutionSuccess results row_count columns) \<Rightarrow>
             (case total_rows_of results of
                Inl msg \<Rightarrow> (Inl msg, w1)
              | Inr total_rows \<Rightarrow>
                  (case estimate_of total_rows columns of
                     Inl msg \<Rightarrow> (Inl msg, w1)
                   | Inr estimated_size \<Rightarrow>
                       (let (ts, w2) = now e w1
                        in (Inr [''success'' \<mapsto> PBool True,
                                 ''total_rows'' \<mapsto> PCell total_rows,
                                 ''estimated_size'' \<mapsto> PStr estimated_size,
                                 ''columns'' \<mapsto> PNames columns,
                                 ''query'' \<mapsto> PStr sql_query,
                                 ''timestamp'' \<mapsto> PStr ts], w2))))
         | Inr (ExecutionFailure err) \<Rightarrow>
             (let (ts, w2) = now e w1
              in (Inr [''success'' \<mapsto> PBool False,
                       ''error'' \<mapsto> PStr err,
                       ''query'' \<mapsto> PStr sql_query,
                       ''timestamp'' \<mapsto> PStr ts], w2)))"

definition get_query_statistics :: "env \<Rightarrow> string \<Rightarrow> int \<Rightarrow> world \<Rightarrow> pydict \<times> world" where
  "get_query_statistics e sql_query user_id w =
     (case get_query_statistics_body e sql_query user_id w of
        (Inr result, w1) \<Rightarrow> (result, w1)
      | (Inl msg, w1) \<Rightarrow>
          (let (ts, w2) = now e w1
           in ([''success'' \<mapsto> PBool False,
                ''error'' \<mapsto> PStr msg,
                ''query'' \<mapsto> PStr sql_query,
                ''timestamp'' \<mapsto> PStr ts], w2)))"

section \<open>Reference definitions\<close>

text \<open>
  The notions the properties below are stated with. A text is cut into pieces at its
  single quotes: the pieces at even index lie outside literals, a piece at odd index
  followed by a further piece is the content of a literal delimited by an opening and a
  closing quote.
\<close>

definition double_percent :: "string \<Rightarrow> string" where
  "double_percent s = concat (map (\<lambda>c. if c = CHR ''%'' then ''%%'' else [c]) s)"

fun escape_pieces :: "string list \<Rightarrow> string list" where
  "escape_pieces (outside # literal # next # rest) =
     outside # double_percent literal # escape_pieces (next # rest)"
| "escape_pieces ps = ps"

fun py_join :: "char \<Rightarrow> string list \<Rightarrow> string" where
  "py_join d [] = []"
| "py_join d [p] = p"
| "py_join d (p # q # ps) = p @ d # py_join d (q # ps)"


text \<open>
  What the counting loop of the code computes, read off a text character by character:
  every quote switches the parity, and a token is counted at even parity only. This is
  not a notion of span: after a quote with no later quote the parity stays odd, although
  no literal is closed there.
\<close>

fun placeholders_by_parity :: "bool \<Rightarrow> string \<Rightarrow> nat" where
  "placeholders_by_parity inside [] = 0"
| "placeholders_by_parity inside (c # cs) =
     (if c = quote then placeholders_by_parity (\<not> inside) cs
      else if \<not> inside \<and> prefix ''%s'' (c # cs) then Suc (placeholders_by_parity inside cs)
      else placeholders_by_parity inside cs)"

text \<open>Running a batch as the specification words it: one query after the other, in
  order, until one fails; the failing outcome is the last one returned.\<close>

fun execute_many_spec ::
  "env \<Rightarrow> int \<Rightarrow> nat \<Rightarrow> string list \<Rightarrow> world \<Rightarrow> pydict list \<times> world" where
  "execute_many_spec e user_id i [] w = ([], w)"
| "execute_many_spec e user_id i (q # qs) w =
     (let (outcome, w1) = execute_query e q user_id w;
          tagged = outcome(''query_index'' \<mapsto> PInt (int i))
      in if outcome ''success'' = Some (PBool True)
         then (let (outcomes, w2) = execute_many_spec e user_id (Suc i) qs w1
               in (tagged # outcomes, w2))
         else ([tagged], w1))"

text \<open>The world after a list of queries has been executed one after the other.\<close>

definition run_queries :: "env \<Rightarrow> int \<Rightarrow> world \<Rightarrow> string list \<Rightarrow> world" where
  "run_queries e user_id w qs = foldl (\<lambda>w q. snd (execute_query e q user_id w)) w qs"

section \<open>Example collaborators\<close>

text \<open>A guard that lets only texts starting with \<open>SELECT\<close> pass, a driver that answers
  every call with one row, and a clock.\<close>

definition example_env :: env where
  "example_env =
     \<lparr>validate_query = (\<lambda>q uid. if startswith (upper q) ''SELECT'' then Inr (True, ''ok'')
                                 else Inr (False, ''Only SELECT queries are allowed'')),
      execute_query_with_validation =
        (\<lambda>history q params. Inr (ExecutionSuccess [[(''total_rows'', VInt 1)]] 1 [''total_rows''])),
      isoformat = (\<lambda>n. ''2025-01-01T00:00:0'' @ [char_of (48 + n)])\<rparr>"

text \<open>The same with a guard that raises, and with a driver that raises.\<close>

definition broken_guard_env :: env where
  "broken_guard_env = example_env\<lparr>validate_query := (\<lambda>q uid. Inl ''guard unavailable'')\<rparr>"

definition broken_driver_env :: env where
  "broken_driver_env =
     example_env\<lparr>execute_query_with_validation := (\<lambda>history q params. Inl ''connection lost'')\<rparr>"

definition start :: world where
  "start = \<lparr>dispatched = [], clock = 0\<rparr>"

section \<open>Properties of the string operations\<close>

subsection \<open>Splitting at quotes and the literal escaper\<close>

lemma py_split_Cons [simp]:
  "py_split (c # cs) d =
     (if c = d then [] # py_split cs d
      else (c # hd (py_split cs d)) # tl (py_split cs d))"
  by (simp add: push_front_def)

declare py_split.simps(2) [simp del]

lemma py_split_not_Nil [simp]: "py_split s d \<noteq> []"
  by (induction s) auto

lemma py_split_no_sep: "d \<notin> set s \<Longrightarrow> py_split s d = [s]"
  by (induction s) auto

lemma py_split_append_sep: "d \<notin> set a \<Longrightarrow> py_split (a @ d # s) d = a # py_split s d"
  by (induction a) auto

lemma py_split_append: "d \<notin> set a \<Longrightarrow> py_split (a @ s) d = (a @ hd (py_split s d)) # tl (py_split s d)"
  by (induction a) auto

lemma py_join_split: "py_join d (py_split s d) = s"
proof (induction s)
  case Nil
  show ?case by simp
next
  case (Cons c cs)
  obtain p ps where ps: "py_split cs d = p # ps"
    by (cases "py_split cs d") auto
  show ?case
  proof (cases "c = d")
    case True
    with Cons ps show ?thesis by simp
  next
    case False
    with Cons ps show ?thesis by (cases ps) auto
  qed
qed

lemma replace_percent: "replace_scan ''%'' ''%%'' s = double_percent s"
  by (induction s) (auto simp: double_percent_def)

lemma py_replace_percent: "py_replace s ''%'' ''%%'' = double_percent s"
  by (simp add: py_replace_def replace_percent)

lemma double_percent_quote: "quote \<notin> set s \<Longrightarrow> quote \<notin> set (double_percent s)"
  by (induction s) (auto simp: double_percent_def quote_def)

lemma split_takeWhile:
  "py_split s d = takeWhile (\<lambda>x. x \<noteq> d) s #
     (case dropWhile (\<lambda>x. x \<noteq> d) s of [] \<Rightarrow> [] | _ # rest \<Rightarrow> py_split rest d)"
  by (induction s) (auto split: list.splits)

lemma escape_pieces_Cons: "escape_pieces ((c # a) # ps) = (c # hd (escape_pieces (a # ps))) # tl (escape_pieces (a # ps))"
proof (cases ps)
  case Nil
  then show ?thesis by simp
next
  case (Cons b bs)
  then show ?thesis by (cases bs) simp_all
qed

lemma escape_pieces_not_Nil [simp]: "(escape_pieces ps = []) = (ps = [])"
  by (induction ps rule: escape_pieces.induct) auto

lemma split_re_sub: "py_split (re_sub_literals s) quote = escape_pieces (py_split s quote)"
proof (induction s rule: re_sub_literals.induct)
  case 1
  show ?case by simp
next
  case (2 c cs)
  show ?case
  proof (cases "c = quote")
    case False
    obtain p ps where ps: "py_split cs quote = p # ps"
      by (cases "py_split cs quote") auto
    from False 2(3) ps show ?thesis
      by (simp add: escape_pieces_Cons)
  next
    case True
    define content where "content = takeWhile (\<lambda>x. x \<noteq> quote) cs"
    define rest where "rest = dropWhile (\<lambda>x. x \<noteq> quote) cs"
    have noq: "quote \<notin> set content"
      unfolding content_def by (auto dest: set_takeWhileD)
    show ?thesis
    proof (cases "rest = []")
      case True
      then have cs: "py_split cs quote = [content]"
        using split_takeWhile[of cs quote] unfolding rest_def content_def
        by (simp del: dropWhile_eq_Nil_conv)
      have "py_split (re_sub_literals cs) quote = escape_pieces (py_split cs quote)"
        using 2(1)[OF \<open>c = quote\<close> content_def rest_def True] .
      with cs True \<open>c = quote\<close> show ?thesis
        by (simp add: content_def[symmetric] rest_def[symmetric])
    next
      case False
      then have "\<not> hd rest \<noteq> quote"
        unfolding rest_def by (rule hd_dropWhile)
      with False obtain r where r: "rest = quote # r"
        by (cases rest) auto
      have cs: "py_split cs quote = content # py_split r quote"
        using split_takeWhile[of cs quote] r by (simp add: content_def rest_def[symmetric])
      have ih: "py_split (re_sub_literals r) quote = escape_pieces (py_split r quote)"
        using 2(2)[OF \<open>c = quote\<close> content_def rest_def False] r by simp
      obtain p ps where ps: "py_split r quote = p # ps"
        by (cases "py_split r quote") auto
      have "re_sub_literals (c # cs) = quote # double_percent content @ quote # re_sub_literals r"
        using \<open>c = quote\<close> False r
        by (simp add: content_def[symmetric] rest_def[symmetric] escape_string_literal_def py_replace_percent)
      then have "py_split (re_sub_literals (c # cs)) quote =
          [] # double_percent content # py_split (re_sub_literals r) quote"
        using double_percent_quote[OF noq] by (simp add: py_split_append_sep)
      with ih cs ps \<open>c = quote\<close> show ?thesis by simp
    qed
  qed
qed

lemma re_sub_literals_pieces:
  "re_sub_literals s = py_join quote (escape_pieces (py_split s quote))"
  using py_join_split[of quote "re_sub_literals s"] by (simp add: split_re_sub)

subsection \<open>The counting loop and the character scan\<close>

lemma count_placeholders_Cons:
  "count_placeholders i (p # ps) acc =
     count_placeholders (Suc i) ps (if even i then acc + count_scan ''%s'' p else acc)"
  by (simp add: py_count_def even_iff_mod_2_eq_zero)

lemma count_placeholders_add:
  "count_placeholders i ps (acc + k) = count_placeholders i ps acc + k"
proof (induction ps arbitrary: i acc)
  case Nil
  show ?case by simp
next
  case (Cons p ps)
  have e: "acc + k + count_scan ''%s'' p = acc + count_scan ''%s'' p + k"
    by simp
  show ?case
    using Cons[of "Suc i" "acc + count_scan ''%s'' p"] Cons[of "Suc i" acc]
    by (simp add: count_placeholders_Cons e del: count_placeholders.simps)
qed

lemma count_scan_step:
  "count_scan ''%s'' (c # p) =
     (if prefix ''%s'' (c # p) then Suc (count_scan ''%s'' p) else count_scan ''%s'' p)"
  by (cases p) auto

lemma prefix_hd_split:
  "prefix ''%s'' (c # hd (py_split cs quote)) = prefix ''%s'' (c # cs)"
  by (cases cs) (auto simp: quote_def)

lemma count_placeholders_scan:
  "count_placeholders i (py_split s quote) acc = acc + placeholders_by_parity (odd i) s"
proof (induction s arbitrary: i acc)
  case Nil
  show ?case by (simp add: py_count_def)
next
  case (Cons c cs)
  obtain p ps where ps: "py_split cs quote = p # ps"
    by (cases "py_split cs quote") auto
  show ?case
  proof (cases "c = quote")
    case True
    then show ?thesis using Cons[of "Suc i"] by (simp add: py_count_def)
  next
    case False
    have hd: "prefix ''%s'' (c # p) = prefix ''%s'' (c # cs)"
      using prefix_hd_split[of c cs] ps by simp
    have ih: "count_placeholders (Suc i) ps (if even i then a + count_scan ''%s'' p else a)
        = a + placeholders_by_parity (odd i) cs" for a
      using Cons[of i a] unfolding ps count_placeholders_Cons .
    have split: "py_split (c # cs) quote = (c # p) # ps"
      using False ps by simp
    show ?thesis
    proof (cases "even i \<and> prefix ''%s'' (c # cs)")
      case True
      then have "count_placeholders i (py_split (c # cs) quote) acc =
          count_placeholders (Suc i) ps (acc + count_scan ''%s'' p + 1)"
        unfolding split count_placeholders_Cons count_scan_step hd by simp
      also have "\<dots> = count_placeholders (Suc i) ps (acc + count_scan ''%s'' p) + 1"
        by (rule count_placeholders_add)
      also have "\<dots> = acc + placeholders_by_parity (odd i) cs + 1"
        using ih[of acc] True by simp
      finally show ?thesis using True False by simp
    next
      case nomatch: False
      then have "count_placeholders i (py_split (c # cs) quote) acc =
          count_placeholders (Suc i) ps (if even i then acc + count_scan ''%s'' p else acc)"
        unfolding split count_placeholders_Cons count_scan_step hd by auto
      also have "\<dots> = acc + placeholders_by_parity (odd i) cs"
        by (rule ih)
      finally show ?thesis using nomatch False by auto
    qed
  qed
qed

lemma params_scan:
  "snd (prepare_query_parameters q u) =
     replicate (placeholders_by_parity False (fst (prepare_query_parameters q u))) u"
  by (simp add: prepare_query_parameters_def Let_def count_placeholders_scan)

lemma length_escape_pieces [simp]: "length (escape_pieces ps) = length ps"
  by (induction ps rule: escape_pieces.induct) auto

lemma escape_pieces_nth:
  "i < length ps \<Longrightarrow>
     escape_pieces ps ! i =
       (if odd i \<and> Suc i < length ps then double_percent (ps ! i) else ps ! i)"
proof (induction ps arbitrary: i rule: escape_pieces.induct)
  case (1 outside literal nxt rest)
  show ?case
  proof (cases i)
    case 0
    then show ?thesis by simp
  next
    case (Suc j)
    show ?thesis
    proof (cases j)
      case 0
      with Suc show ?thesis by simp
    next
      case (Suc k)
      with \<open>i = Suc j\<close> 1 show ?thesis by simp
    qed
  qed
qed (auto simp: less_Suc_eq)

lemma double_percent_append: "double_percent (a @ b) = double_percent a @ double_percent b"
  by (simp add: double_percent_def)

lemma fst_prepare:
  "fst (prepare_query_parameters q u) = re_sub_literals (py_replace q ''{user_id}'' ''%s'')"
  by (simp add: prepare_query_parameters_def Let_def)

section \<open>Parameter binding and literal escaping\<close>

text \<open>
  C4: the escaping step doubles every percent sign inside a literal delimited by two
  single quotes and leaves every other character as it is, placeholder tokens outside
  literals included. For the query with the literal \<open>'50% off'\<close> the literal becomes
  \<open>'50%% off'\<close>, the scope marker becomes the one placeholder and the parameter sequence
  is the caller's user id alone.
\<close>

theorem escape_doubles_inside_literals:
  "re_sub_literals q = py_join quote (escape_pieces (py_split q quote))
   \<and> py_split (re_sub_literals q) quote = escape_pieces (py_split q quote)
   \<and> fst (prepare_query_parameters q user_id) =
       py_join quote (escape_pieces (py_split (py_replace q ''{user_id}'' ''%s'') quote))
   \<and> prepare_query_parameters
        (''SELECT * FROM events WHERE user_id = {user_id} AND label = '50% off'' @ [quote]) user_id
      = (''SELECT * FROM events WHERE user_id = %s AND label = '50%% off'' @ [quote], [user_id])"
proof -
  have a: "re_sub_literals q = py_join quote (escape_pieces (py_split q quote))"
    by (rule re_sub_literals_pieces)
  have b: "py_split (re_sub_literals q) quote = escape_pieces (py_split q quote)"
    by (rule split_re_sub)
  have c: "fst (prepare_query_parameters q user_id) =
       py_join quote (escape_pieces (py_split (py_replace q ''{user_id}'' ''%s'') quote))"
    by (simp only: fst_prepare re_sub_literals_pieces)
  have d: "prepare_query_parameters
        (''SELECT * FROM events WHERE user_id = {user_id} AND label = '50% off'' @ [quote]) user_id
      = (''SELECT * FROM events WHERE user_id = %s AND label = '50%% off'' @ [quote], [user_id])"
    by code_simp
  from a b c d show ?thesis by blast
qed

theorem escape_doubles_inside_literals_witness:
  "re_sub_literals (''x = %s AND y = '5%' AND z = 'a'' @ [quote])
     = ''x = %s AND y = '5%%' AND z = 'a'' @ [quote]
   \<and> py_split (''x = %s AND y = '5%' AND z = 'a'' @ [quote]) quote
     = [''x = %s AND y = '', ''5%'', '' AND z = '', ''a'', '''']"
proof -
  have s: "py_split (''x = %s AND y = '5%' AND z = 'a'' @ [quote]) quote
     = [''x = %s AND y = '', ''5%'', '' AND z = '', ''a'', '''']"
    by code_simp
  have j: "py_join quote (escape_pieces
        (py_split (''x = %s AND y = '5%' AND z = 'a'' @ [quote]) quote))
     = ''x = %s AND y = '5%%' AND z = 'a'' @ [quote]"
    by code_simp
  have w: "re_sub_literals (''x = %s AND y = '5%' AND z = 'a'' @ [quote])
     = ''x = %s AND y = '5%%' AND z = 'a'' @ [quote]"
    by (rule trans [OF escape_doubles_inside_literals
          [of "''x = %s AND y = '5%' AND z = 'a'' @ [quote]" 0, THEN conjunct1] j])
  from w s show ?thesis by (rule conjI)
qed

text \<open>
  C8: escaping is a plain doubling, not a normalisation. Piece by piece: after one
  application a closed literal has each percent sign doubled, after two applications
  doubled twice, so that a single percent sign has become four; the pieces outside
  literals are the same after one and after two applications as before.
\<close>

theorem escape_twice_doubles_twice:
  "i < length (py_split q quote) \<Longrightarrow>
     py_split (re_sub_literals q) quote ! i =
       (if odd i \<and> Suc i < length (py_split q quote)
        then double_percent (py_split q quote ! i) else py_split q quote ! i)
   \<and> py_split (re_sub_literals (re_sub_literals q)) quote ! i =
       (if odd i \<and> Suc i < length (py_split q quote)
        then double_percent (double_percent (py_split q quote ! i)) else py_split q quote ! i)
   \<and> length (py_split (re_sub_literals (re_sub_literals q)) quote) = length (py_split q quote)
   \<and> double_percent (double_percent ''%'') = ''%%%%''
   \<and> re_sub_literals (re_sub_literals ''a % 'b%' c %s'') = ''a % 'b%%%%' c %s''"
proof -
  assume i: "i < length (py_split q quote)"
  have one: "py_split (re_sub_literals q) quote ! i =
       (if odd i \<and> Suc i < length (py_split q quote)
        then double_percent (py_split q quote ! i) else py_split q quote ! i)"
    using escape_pieces_nth[OF i] by (simp only: split_re_sub)
  have i': "i < length (escape_pieces (py_split q quote))"
    using i by simp
  have two: "py_split (re_sub_literals (re_sub_literals q)) quote ! i =
       (if odd i \<and> Suc i < length (py_split q quote)
        then double_percent (double_percent (py_split q quote ! i)) else py_split q quote ! i)"
    using escape_pieces_nth[OF i'] escape_pieces_nth[OF i]
    by (simp add: split_re_sub)
  have len: "length (py_split (re_sub_literals (re_sub_literals q)) quote) = length (py_split q quote)"
    by (simp add: split_re_sub)
  have four: "double_percent (double_percent ''%'') = ''%%%%''"
    by (simp add: double_percent_def)
  have ex: "re_sub_literals (re_sub_literals ''a % 'b%' c %s'') = ''a % 'b%%%%' c %s''"
    by code_simp
  from one two len four ex show ?thesis by blast
qed

theorem escape_twice_doubles_twice_witness:
  "py_split ''a % 'b%' c %s'' quote = [''a % '', ''b%'', '' c %s'']
   \<and> py_split (re_sub_literals (re_sub_literals ''a % 'b%' c %s'')) quote ! 1 = ''b%%%%''
   \<and> py_split (re_sub_literals (re_sub_literals ''a % 'b%' c %s'')) quote ! 0 = ''a % ''"
proof -
  have s: "py_split ''a % 'b%' c %s'' quote = [''a % '', ''b%'', '' c %s'']"
    by code_simp
  have d: "double_percent (double_percent ''b%'') = ''b%%%%''"
    by (simp add: double_percent_def)
  have l1: "1 < length (py_split ''a % 'b%' c %s'' quote)"
    unfolding s by simp
  have l0: "0 < length (py_split ''a % 'b%' c %s'' quote)"
    unfolding s by simp
  have r1: "(if odd (1::nat) \<and> Suc 1 < length [''a % '', ''b%'', '' c %s'']
        then double_percent (double_percent ([''a % '', ''b%'', '' c %s''] ! 1))
        else [''a % '', ''b%'', '' c %s''] ! 1) = ''b%%%%''"
    by (simp add: d)
  have r0: "(if odd (0::nat) \<and> Suc 0 < length [''a % '', ''b%'', '' c %s'']
        then double_percent (double_percent ([''a % '', ''b%'', '' c %s''] ! 0))
        else [''a % '', ''b%'', '' c %s''] ! 0) = ''a % ''"
    by simp
  have t1: "py_split (re_sub_literals (re_sub_literals ''a % 'b%' c %s'')) quote ! 1 = ''b%%%%''"
    by (rule trans [OF escape_twice_doubles_twice
          [OF l1, unfolded s, THEN conjunct2, THEN conjunct1] r1])
  have t0: "py_split (re_sub_literals (re_sub_literals ''a % 'b%' c %s'')) quote ! 0 = ''a % ''"
    by (rule trans [OF escape_twice_doubles_twice
          [OF l0, unfolded s, THEN conjunct2, THEN conjunct1] r0])
  from s t1 t0 show ?thesis by blast
qed

section \<open>The execution agent\<close>

lemma now_simps [simp]:
  "fst (now e w) = isoformat e (clock w)"
  "dispatched (snd (now e w)) = dispatched w"
  "clock (snd (now e w)) = Suc (clock w)"
  by (simp_all add: now_def)

lemma execute_query_rejected:
  "validate_query e q uid = Inr (False, reason) \<Longrightarrow>
     execute_query e q uid w =
       ([''success'' \<mapsto> PBool False,
         ''error'' \<mapsto> PStr (''Query blocked for security: '' @ reason),
         ''query'' \<mapsto> PStr q,
         ''user_id'' \<mapsto> PInt uid,
         ''timestamp'' \<mapsto> PStr (isoformat e (clock w))],
        w\<lparr>clock := Suc (clock w)\<rparr>)"
  by (simp add: execute_query_def execute_query_body_def now_def)

lemma execute_query_handler:
  "execute_query_body e q uid w = (Inl msg, w1) \<Longrightarrow>
     execute_query e q uid w =
       ([''success'' \<mapsto> PBool False,
         ''error'' \<mapsto> PStr msg,
         ''query'' \<mapsto> PStr q,
         ''user_id'' \<mapsto> PInt uid,
         ''timestamp'' \<mapsto> PStr (isoformat e (clock w1))],
        w1\<lparr>clock := Suc (clock w1)\<rparr>)"
  by (simp add: execute_query_def now_def)

lemma execute_query_body_guard_raises:
  "validate_query e q uid = Inl msg \<Longrightarrow> execute_query_body e q uid w = (Inl msg, w)"
  by (simp add: execute_query_body_def)

lemma execute_query_body_driver_raises:
  "validate_query e q uid = Inr (True, reason) \<Longrightarrow>
   execute_query_with_validation e (dispatched w)
     (fst (prepare_query_parameters q uid)) (snd (prepare_query_parameters q uid)) = Inl msg \<Longrightarrow>
   execute_query_body e q uid w =
     (Inl msg, w\<lparr>dispatched := dispatched w @ [prepare_query_parameters q uid]\<rparr>)"
  by (simp add: execute_query_body_def dispatch_def split_beta)

lemma execute_query_fields:
  "(\<exists>b. fst (execute_query e q uid w) ''success'' = Some (PBool b))
   \<and> fst (execute_query e q uid w) ''query'' = Some (PStr q)
   \<and> fst (execute_query e q uid w) ''user_id'' = Some (PInt uid)
   \<and> (\<exists>ts. fst (execute_query e q uid w) ''timestamp'' = Some (PStr ts))"
  by (auto simp: execute_query_def execute_query_body_def dispatch_def now_def split_beta
      split: sum.splits execution_result.splits)

lemma execute_query_accepted_dispatch:
  "validate_query e q uid = Inr (True, reason) \<Longrightarrow>
     dispatched (snd (execute_query e q uid w)) = dispatched w @ [prepare_query_parameters q uid]"
  by (simp add: execute_query_def execute_query_body_def dispatch_def now_def split_beta
      split: sum.splits execution_result.splits)

text \<open>
  C1: when the guard answers that the query is not safe, \<open>execute_query\<close> returns the
  failure value whose error says that the query was blocked for security, and the driver
  is not contacted: the list of dispatched calls is unchanged and the outcome is the same
  whatever the driver would have done.
\<close>

theorem rejected_query_never_dispatched:
  "validate_query e q uid = Inr (False, reason) \<Longrightarrow>
     fst (execute_query e q uid w) =
       [''success'' \<mapsto> PBool False,
        ''error'' \<mapsto> PStr (''Query blocked for security: '' @ reason),
        ''query'' \<mapsto> PStr q,
        ''user_id'' \<mapsto> PInt uid,
        ''timestamp'' \<mapsto> PStr (isoformat e (clock w))]
   \<and> dispatched (snd (execute_query e q uid w)) = dispatched w
   \<and> execute_query (e\<lparr>execute_query_with_validation := driver\<rparr>) q uid w =
       execute_query e q uid w"
proof -
  assume r: "validate_query e q uid = Inr (False, reason)"
  then have r': "validate_query (e\<lparr>execute_query_with_validation := driver\<rparr>) q uid =
      Inr (False, reason)"
    by simp
  show ?thesis
    by (simp add: execute_query_rejected[OF r] execute_query_rejected[OF r'])
qed

theorem rejected_query_never_dispatched_witness:
  "validate_query example_env ''DROP TABLE users'' 7 =
     Inr (False, ''Only SELECT queries are allowed'')
   \<and> fst (execute_query example_env ''DROP TABLE users'' 7 start) ''error'' =
     Some (PStr ''Query blocked for security: Only SELECT queries are allowed'')
   \<and> dispatched (snd (execute_query example_env ''DROP TABLE users'' 7 start)) = []"
proof -
  have v: "validate_query example_env ''DROP TABLE users'' 7 =
     Inr (False, ''Only SELECT queries are allowed'')"
    by (simp add: example_env_def startswith_def upper_def upper_char_def)
  show ?thesis
    using rejected_query_never_dispatched [OF v, of start "\<lambda>h t p. Inl ''down''"] v
    by (simp add: start_def)
qed

text \<open>
  C9: \<open>execute_query\<close> returns a result dictionary in every case. An exception raised
  inside the body, by the guard or by the driver, becomes a result whose \<open>success\<close> is
  false and whose \<open>error\<close> is the message of the exception. Every result, success or
  failure, carries the original query text, the user id and a timestamp.
\<close>

theorem execute_query_always_returns_result:
  "(\<exists>b. fst (execute_query e q uid w) ''success'' = Some (PBool b))
   \<and> fst (execute_query e q uid w) ''query'' = Some (PStr q)
   \<and> fst (execute_query e q uid w) ''user_id'' = Some (PInt uid)
   \<and> (\<exists>ts. fst (execute_query e q uid w) ''timestamp'' = Some (PStr ts))
   \<and> (\<forall>msg w1. execute_query_body e q uid w = (Inl msg, w1) \<longrightarrow>
         fst (execute_query e q uid w) ''success'' = Some (PBool False)
       \<and> fst (execute_query e q uid w) ''error'' = Some (PStr msg))
   \<and> (\<forall>msg. validate_query e q uid = Inl msg \<longrightarrow>
         fst (execute_query e q uid w) ''success'' = Some (PBool False)
       \<and> fst (execute_query e q uid w) ''error'' = Some (PStr msg))
   \<and> (\<forall>msg reason. validate_query e q uid = Inr (True, reason) \<and>
         execute_query_with_validation e (dispatched w)
           (fst (prepare_query_parameters q uid)) (snd (prepare_query_parameters q uid)) = Inl msg \<longrightarrow>
         fst (execute_query e q uid w) ''success'' = Some (PBool False)
       \<and> fst (execute_query e q uid w) ''error'' = Some (PStr msg))"
proof -
  have body: "fst (execute_query e q uid w) ''success'' = Some (PBool False)
       \<and> fst (execute_query e q uid w) ''error'' = Some (PStr msg)"
    if "execute_query_body e q uid w = (Inl msg, w1)" for msg w1
    by (simp add: execute_query_handler[OF that])
  have guard: "fst (execute_query e q uid w) ''success'' = Some (PBool False)
       \<and> fst (execute_query e q uid w) ''error'' = Some (PStr msg)"
    if "validate_query e q uid = Inl msg" for msg
    by (rule body[OF execute_query_body_guard_raises[OF that]])
  have driver: "fst (execute_query e q uid w) ''success'' = Some (PBool False)
       \<and> fst (execute_query e q uid w) ''error'' = Some (PStr msg)"
    if "validate_query e q uid = Inr (True, reason) \<and>
         execute_query_with_validation e (dispatched w)
           (fst (prepare_query_parameters q uid)) (snd (prepare_query_parameters q uid)) = Inl msg"
    for msg reason
  proof -
    from that have a: "validate_query e q uid = Inr (True, reason)"
      and b: "execute_query_with_validation e (dispatched w)
           (fst (prepare_query_parameters q uid)) (snd (prepare_query_parameters q uid)) = Inl msg"
      by simp_all
    show ?thesis
      by (rule body[OF execute_query_body_driver_raises[OF a b]])
  qed
  from execute_query_fields[of e q uid w] body guard driver show ?thesis
    by blast
qed

theorem execute_query_always_returns_result_witness:
  "execute_query_with_validation broken_driver_env (dispatched start)
     ''SELECT n FROM t WHERE user_id = %s'' [7] = Inl ''connection lost''
   \<and> fst (execute_query broken_driver_env ''SELECT n FROM t WHERE user_id = {user_id}'' 7 start) ''error''
     = Some (PStr ''connection lost'')
   \<and> fst (execute_query broken_guard_env ''SELECT 1'' 7 start) ''error''
     = Some (PStr ''guard unavailable'')
   \<and> fst (execute_query broken_guard_env ''SELECT 1'' 7 start) ''success'' = Some (PBool False)"
proof -
  have p: "prepare_query_parameters ''SELECT n FROM t WHERE user_id = {user_id}'' 7 =
      (''SELECT n FROM t WHERE user_id = %s'', [7])"
    by code_simp
  have v: "validate_query broken_driver_env ''SELECT n FROM t WHERE user_id = {user_id}'' 7 =
      Inr (True, ''ok'')"
    by (simp add: broken_driver_env_def example_env_def startswith_def upper_def upper_char_def)
  have d: "execute_query_with_validation broken_driver_env (dispatched start)
     ''SELECT n FROM t WHERE user_id = %s'' [7] = Inl ''connection lost''"
    by (simp add: broken_driver_env_def)
  have g: "validate_query broken_guard_env ''SELECT 1'' 7 = Inl ''guard unavailable''"
    by (simp add: broken_guard_env_def)
  show ?thesis
    using execute_query_always_returns_result
            [of broken_driver_env "''SELECT n FROM t WHERE user_id = {user_id}''" 7 start]
          execute_query_always_returns_result [of broken_guard_env "''SELECT 1''" 7 start]
          v d g
    by (simp add: p)
qed

section \<open>Batches\<close>

lemma execute_query_success_cases:
  obtains b where "fst (execute_query e q uid w) ''success'' = Some (PBool b)"
  using execute_query_fields[of e q uid w] by blast

lemma loop_is_spec:
  "execute_multiple_queries_loop e uid i qs acc w =
     (Inr (acc @ fst (execute_many_spec e uid i qs w)), snd (execute_many_spec e uid i qs w))"
proof (induction qs arbitrary: i acc w)
  case Nil
  show ?case by simp
next
  case (Cons q qs)
  obtain r w1 where r: "execute_query e q uid w = (r, w1)"
    by (cases "execute_query e q uid w")
  obtain b where b: "r ''success'' = Some (PBool b)"
    using execute_query_success_cases[of e q uid w] r by auto
  show ?case
  proof (cases b)
    case True
    with r b Cons[of "Suc i" "acc @ [r(''query_index'' \<mapsto> PInt (int i))]" w1]
    show ?thesis by (simp add: split_beta Let_def)
  next
    case False
    with r b show ?thesis by simp
  qed
qed

lemma spec_length: "length (fst (execute_many_spec e uid i qs w)) \<le> length qs"
proof (induction qs arbitrary: i w)
  case Nil
  show ?case by simp
next
  case (Cons q qs)
  show ?case
    using Cons[of "Suc i" "snd (execute_query e q uid w)"]
    by (simp add: split_beta Let_def)
qed

lemma spec_nth:
  "j < length (fst (execute_many_spec e uid i qs w)) \<Longrightarrow>
     fst (execute_many_spec e uid i qs w) ! j =
       (fst (execute_query e (qs ! j) uid (run_queries e uid w (take j qs))))
         (''query_index'' \<mapsto> PInt (int (i + j)))"
proof (induction qs arbitrary: i j w)
  case Nil
  then show ?case by simp
next
  case (Cons q qs)
  show ?case
  proof (cases j)
    case 0
    then show ?thesis by (simp add: split_beta Let_def run_queries_def)
  next
    case (Suc k)
    with Cons.prems have ok: "fst (execute_query e q uid w) ''success'' = Some (PBool True)"
      and k: "k < length (fst (execute_many_spec e uid (Suc i) qs (snd (execute_query e q uid w))))"
      by (auto simp: split_beta Let_def split: if_splits)
    from Cons.IH[OF k] ok Suc show ?thesis
      by (simp add: split_beta Let_def run_queries_def)
  qed
qed

lemma spec_all_but_last_succeed:
  "Suc j < length (fst (execute_many_spec e uid i qs w)) \<Longrightarrow>
     (fst (execute_many_spec e uid i qs w) ! j) ''success'' = Some (PBool True)"
proof (induction qs arbitrary: i j w)
  case Nil
  then show ?case by simp
next
  case (Cons q qs)
  from Cons.prems have ok: "fst (execute_query e q uid w) ''success'' = Some (PBool True)"
    by (auto simp: split_beta Let_def split: if_splits)
  show ?case
  proof (cases j)
    case 0
    with ok show ?thesis by (simp add: split_beta Let_def)
  next
    case (Suc k)
    with Cons.prems ok
    have "Suc k < length (fst (execute_many_spec e uid (Suc i) qs (snd (execute_query e q uid w))))"
      by (simp add: split_beta Let_def)
    from Cons.IH[OF this] ok Suc show ?thesis
      by (simp add: split_beta Let_def)
  qed
qed

lemma spec_stops_at_failure:
  "length (fst (execute_many_spec e uid i qs w)) < length qs \<Longrightarrow>
     fst (execute_many_spec e uid i qs w) \<noteq> [] \<and>
     last (fst (execute_many_spec e uid i qs w)) ''success'' = Some (PBool False)"
proof (induction qs arbitrary: i w)
  case Nil
  then show ?case by simp
next
  case (Cons q qs)
  obtain b where b: "fst (execute_query e q uid w) ''success'' = Some (PBool b)"
    by (rule execute_query_success_cases)
  show ?case
  proof (cases b)
    case False
    with b show ?thesis by (simp add: split_beta Let_def)
  next
    case True
    with b Cons.prems
    have "length (fst (execute_many_spec e uid (Suc i) qs (snd (execute_query e q uid w)))) < length qs"
      by (simp add: split_beta Let_def)
    from Cons.IH[OF this] True b show ?thesis
      by (simp add: split_beta Let_def)
  qed
qed

lemma spec_world:
  "snd (execute_many_spec e uid i qs w) =
     run_queries e uid w (take (length (fst (execute_many_spec e uid i qs w))) qs)"
proof (induction qs arbitrary: i w)
  case Nil
  show ?case by (simp add: run_queries_def)
next
  case (Cons q qs)
  show ?case
    using Cons[of "Suc i" "snd (execute_query e q uid w)"]
    by (simp add: split_beta Let_def run_queries_def)
qed

lemma three_queries_second_rejected:
  assumes ok: "fst (execute_query e q1 uid w) ''success'' = Some (PBool True)"
    and rej: "validate_query e q2 uid = Inr (False, reason)"
  shows "execute_multiple_queries e [q1, q2, q3] uid w =
      (Inr [(fst (execute_query e q1 uid w))(''query_index'' \<mapsto> PInt 0),
            (fst (execute_query e q2 uid (snd (execute_query e q1 uid w))))
              (''query_index'' \<mapsto> PInt 1)],
       snd (execute_query e q2 uid (snd (execute_query e q1 uid w))))"
    and "fst (execute_query e q2 uid (snd (execute_query e q1 uid w))) ''success'' =
      Some (PBool False)"
    and "dispatched (snd (execute_query e q2 uid (snd (execute_query e q1 uid w)))) =
      dispatched (snd (execute_query e q1 uid w))"
proof -
  have r2: "fst (execute_query e q2 uid (snd (execute_query e q1 uid w))) ''success'' =
      Some (PBool False)"
    by (simp add: execute_query_rejected[OF rej])
  show "fst (execute_query e q2 uid (snd (execute_query e q1 uid w))) ''success'' =
      Some (PBool False)"
    by (rule r2)
  show "dispatched (snd (execute_query e q2 uid (snd (execute_query e q1 uid w)))) =
      dispatched (snd (execute_query e q1 uid w))"
    by (simp add: execute_query_rejected[OF rej])
  show "execute_multiple_queries e [q1, q2, q3] uid w =
      (Inr [(fst (execute_query e q1 uid w))(''query_index'' \<mapsto> PInt 0),
            (fst (execute_query e q2 uid (snd (execute_query e q1 uid w))))
              (''query_index'' \<mapsto> PInt 1)],
       snd (execute_query e q2 uid (snd (execute_query e q1 uid w))))"
    unfolding execute_multiple_queries_def loop_is_spec
    using ok r2 by (simp add: split_beta Let_def)
qed

text \<open>
  C6: \<open>execute_multiple_queries\<close> runs the queries one after the other in the order
  given: outcome \<open>j\<close> is the outcome of query \<open>j\<close> in the world left by the queries
  before it. It stops at the first failure: every outcome but the last is a success, and
  when fewer outcomes than queries are returned the last outcome is a failure; the world
  is the one left by the queries that have an outcome, so later queries are never
  executed. With three queries of which the first succeeds and the second is rejected by
  the guard, two outcomes are returned, a success and a failure, and nothing is dispatched
  after the first query.
\<close>

theorem execute_multiple_queries_fail_fast:
  "(\<exists>rs w'. execute_multiple_queries e qs uid w = (Inr rs, w')
      \<and> (rs, w') = execute_many_spec e uid 0 qs w
      \<and> length rs \<le> length qs
      \<and> (\<forall>j<length rs. rs ! j =
            (fst (execute_query e (qs ! j) uid (run_queries e uid w (take j qs))))
              (''query_index'' \<mapsto> PInt (int j)))
      \<and> (\<forall>j. Suc j < length rs \<longrightarrow> (rs ! j) ''success'' = Some (PBool True))
      \<and> (length rs < length qs \<longrightarrow> rs \<noteq> [] \<and> last rs ''success'' = Some (PBool False))
      \<and> w' = run_queries e uid w (take (length rs) qs))
   \<and> (fst (execute_query e q1 uid w) ''success'' = Some (PBool True)
        \<and> validate_query e q2 uid = Inr (False, reason) \<longrightarrow>
      execute_multiple_queries e [q1, q2, q3] uid w =
        (Inr [(fst (execute_query e q1 uid w))(''query_index'' \<mapsto> PInt 0),
              (fst (execute_query e q2 uid (snd (execute_query e q1 uid w))))
                (''query_index'' \<mapsto> PInt 1)],
         snd (execute_query e q2 uid (snd (execute_query e q1 uid w))))
      \<and> fst (execute_query e q2 uid (snd (execute_query e q1 uid w))) ''success'' =
          Some (PBool False)
      \<and> dispatched (snd (execute_query e q2 uid (snd (execute_query e q1 uid w)))) =
          dispatched (snd (execute_query e q1 uid w)))"
proof (intro conjI impI)
  define rs where "rs = fst (execute_many_spec e uid 0 qs w)"
  define w' where "w' = snd (execute_many_spec e uid 0 qs w)"
  have 1: "execute_multiple_queries e qs uid w = (Inr rs, w')"
    by (simp add: execute_multiple_queries_def loop_is_spec rs_def w'_def)
  have 2: "(rs, w') = execute_many_spec e uid 0 qs w"
    by (simp add: rs_def w'_def)
  have 3: "length rs \<le> length qs"
    unfolding rs_def by (rule spec_length)
  have 4: "\<forall>j<length rs. rs ! j =
            (fst (execute_query e (qs ! j) uid (run_queries e uid w (take j qs))))
              (''query_index'' \<mapsto> PInt (int j))"
    unfolding rs_def using spec_nth[of _ e uid 0 qs w] by simp
  have 5: "\<forall>j. Suc j < length rs \<longrightarrow> (rs ! j) ''success'' = Some (PBool True)"
    unfolding rs_def using spec_all_but_last_succeed[of _ e uid 0 qs w] by blast
  have 6: "length rs < length qs \<longrightarrow> rs \<noteq> [] \<and> last rs ''success'' = Some (PBool False)"
    unfolding rs_def using spec_stops_at_failure[of e uid 0 qs w] by blast
  have 7: "w' = run_queries e uid w (take (length rs) qs)"
    unfolding rs_def w'_def by (rule spec_world)
  from 1 2 3 4 5 6 7
  show "\<exists>rs w'. execute_multiple_queries e qs uid w = (Inr rs, w')
      \<and> (rs, w') = execute_many_spec e uid 0 qs w
      \<and> length rs \<le> length qs
      \<and> (\<forall>j<length rs. rs ! j =
            (fst (execute_query e (qs ! j) uid (run_queries e uid w (take j qs))))
              (''query_index'' \<mapsto> PInt (int j)))
      \<and> (\<forall>j. Suc j < length rs \<longrightarrow> (rs ! j) ''success'' = Some (PBool True))
      \<and> (length rs < length qs \<longrightarrow> rs \<noteq> [] \<and> last rs ''success'' = Some (PBool False))
      \<and> w' = run_queries e uid w (take (length rs) qs)"
    by blast
next
  assume a: "fst (execute_query e q1 uid w) ''success'' = Some (PBool True)
        \<and> validate_query e q2 uid = Inr (False, reason)"
  then show "execute_multiple_queries e [q1, q2, q3] uid w =
        (Inr [(fst (execute_query e q1 uid w))(''query_index'' \<mapsto> PInt 0),
              (fst (execute_query e q2 uid (snd (execute_query e q1 uid w))))
                (''query_index'' \<mapsto> PInt 1)],
         snd (execute_query e q2 uid (snd (execute_query e q1 uid w))))"
    using three_queries_second_rejected(1)[of e q1 uid w q2 reason q3] by blast
  from a show "fst (execute_query e q2 uid (snd (execute_query e q1 uid w))) ''success'' =
          Some (PBool False)"
    using three_queries_second_rejected(2)[of e q1 uid w q2 reason] by blast
  from a show "dispatched (snd (execute_query e q2 uid (snd (execute_query e q1 uid w)))) =
          dispatched (snd (execute_query e q1 uid w))"
    using three_queries_second_rejected(3)[of e q1 uid w q2 reason] by blast
qed

theorem execute_multiple_queries_fail_fast_witness:
  "fst (execute_query example_env ''SELECT n FROM t WHERE user_id = {user_id}'' 7 start) ''success''
     = Some (PBool True)
   \<and> validate_query example_env ''DROP TABLE t'' 7 = Inr (False, ''Only SELECT queries are allowed'')
   \<and> (case execute_multiple_queries example_env
          [''SELECT n FROM t WHERE user_id = {user_id}'', ''DROP TABLE t'',
           ''SELECT m FROM t WHERE user_id = {user_id}''] 7 start of
         (Inr rs, w') \<Rightarrow>
           length rs = 2 \<and> dispatched w' = [(''SELECT n FROM t WHERE user_id = %s'', [7])]
       | (Inl msg, w') \<Rightarrow> False)"
proof -
  have v1: "validate_query example_env ''SELECT n FROM t WHERE user_id = {user_id}'' 7 =
      Inr (True, ''ok'')"
    by (simp add: example_env_def startswith_def upper_def upper_char_def)
  have p1: "prepare_query_parameters ''SELECT n FROM t WHERE user_id = {user_id}'' 7 =
      (''SELECT n FROM t WHERE user_id = %s'', [7])"
    by code_simp
  have d1: "execute_query_with_validation example_env h t ps =
      Inr (ExecutionSuccess [[(''total_rows'', VInt 1)]] 1 [''total_rows''])" for h t ps
    by (simp add: example_env_def)
  have ok: "fst (execute_query example_env ''SELECT n FROM t WHERE user_id = {user_id}'' 7 start)
      ''success'' = Some (PBool True)"
    by (simp add: execute_query_def execute_query_body_def v1 p1 d1 dispatch_def now_def)
  have disp: "dispatched (snd (execute_query example_env
      ''SELECT n FROM t WHERE user_id = {user_id}'' 7 start)) =
      [(''SELECT n FROM t WHERE user_id = %s'', [7])]"
    using execute_query_accepted_dispatch[OF v1, of start] by (simp add: p1 start_def)
  have v2: "validate_query example_env ''DROP TABLE t'' 7 =
      Inr (False, ''Only SELECT queries are allowed'')"
    by (simp add: example_env_def startswith_def upper_def upper_char_def)
  note t = execute_multiple_queries_fail_fast
    [of example_env _ 7 start "''SELECT n FROM t WHERE user_id = {user_id}''" "''DROP TABLE t''"
        "''Only SELECT queries are allowed''" "''SELECT m FROM t WHERE user_id = {user_id}''",
     THEN conjunct2, rule_format, OF conjI[OF ok v2]]
  from t have run: "execute_multiple_queries example_env
          [''SELECT n FROM t WHERE user_id = {user_id}'', ''DROP TABLE t'',
           ''SELECT m FROM t WHERE user_id = {user_id}''] 7 start =
      (Inr [(fst (execute_query example_env ''SELECT n FROM t WHERE user_id = {user_id}'' 7 start))
              (''query_index'' \<mapsto> PInt 0),
            (fst (execute_query example_env ''DROP TABLE t'' 7
               (snd (execute_query example_env ''SELECT n FROM t WHERE user_id = {user_id}'' 7 start))))
              (''query_index'' \<mapsto> PInt 1)],
       snd (execute_query example_env ''DROP TABLE t'' 7
         (snd (execute_query example_env ''SELECT n FROM t WHERE user_id = {user_id}'' 7 start))))"
    by (rule conjunct1)
  from t have same: "dispatched (snd (execute_query example_env ''DROP TABLE t'' 7
         (snd (execute_query example_env ''SELECT n FROM t WHERE user_id = {user_id}'' 7 start)))) =
      dispatched (snd (execute_query example_env ''SELECT n FROM t WHERE user_id = {user_id}'' 7 start))"
    by (rule conjunct2 [THEN conjunct2])
  have last: "(case execute_multiple_queries example_env
          [''SELECT n FROM t WHERE user_id = {user_id}'', ''DROP TABLE t'',
           ''SELECT m FROM t WHERE user_id = {user_id}''] 7 start of
         (Inr rs, w') \<Rightarrow>
           length rs = 2 \<and> dispatched w' = [(''SELECT n FROM t WHERE user_id = %s'', [7])]
       | (Inl msg, w') \<Rightarrow> False)"
    by (simp add: run same disp)
  from ok v2 last show ?thesis by blast
qed

section \<open>Statistics and keyword checks\<close>

lemma get_query_statistics_dispatch:
  "dispatched (snd (get_query_statistics e q uid w)) =
     dispatched w @
       [prepare_query_parameters
          (''SELECT COUNT(*) as total_rows FROM ('' @ q @ '') as subquery'') uid]"
  by (simp add: get_query_statistics_def get_query_statistics_body_def dispatch_def now_def
      split_beta Let_def split: sum.splits execution_result.splits)

lemma get_query_statistics_ignores_guard:
  "get_query_statistics (e\<lparr>validate_query := g\<rparr>) q uid w = get_query_statistics e q uid w"
proof -
  have n: "now (e\<lparr>validate_query := g\<rparr>) = now e"
    by (rule ext) (simp add: now_def)
  have d: "dispatch (e\<lparr>validate_query := g\<rparr>) = dispatch e"
    by (rule ext)+ (simp add: dispatch_def)
  have b: "get_query_statistics_body (e\<lparr>validate_query := g\<rparr>) q uid w =
      get_query_statistics_body e q uid w"
    unfolding get_query_statistics_body_def n d ..
  show ?thesis
    unfolding get_query_statistics_def b n ..
qed

lemma get_query_statistics_no_rows:
  "fst (get_query_statistics e q uid w) ''results'' = None
   \<and> fst (get_query_statistics e q uid w) ''raw_results'' = None"
  by (simp add: get_query_statistics_def get_query_statistics_body_def dispatch_def now_def
      split_beta Let_def split: sum.splits execution_result.splits)

text \<open>
  C2: \<open>get_query_statistics\<close> wraps the query in a counting query and hands it to the
  driver, and its result has no rows. It does not pass through the security validation
  of \<open>execute_query\<close>: the guard is never consulted, and a query the guard rejects, which
  \<open>execute_query\<close> keeps from the driver, is dispatched inside the counting query.
\<close>

theorem statistics_bypass_guard:
  "dispatched (snd (get_query_statistics e q uid w)) =
     dispatched w @
       [prepare_query_parameters
          (''SELECT COUNT(*) as total_rows FROM ('' @ q @ '') as subquery'') uid]
   \<and> get_query_statistics (e\<lparr>validate_query := g\<rparr>) q uid w = get_query_statistics e q uid w
   \<and> fst (get_query_statistics e q uid w) ''results'' = None
   \<and> validate_query example_env ''DROP TABLE users'' 7 =
       Inr (False, ''Only SELECT queries are allowed'')
   \<and> dispatched (snd (execute_query example_env ''DROP TABLE users'' 7 start)) = []
   \<and> dispatched (snd (get_query_statistics example_env ''DROP TABLE users'' 7 start)) =
       [(''SELECT COUNT(*) as total_rows FROM (DROP TABLE users) as subquery'', [])]
   \<and> fst (get_query_statistics example_env ''DROP TABLE users'' 7 start) ''success'' =
       Some (PBool True)"
proof -
  have v: "validate_query example_env ''DROP TABLE users'' 7 =
       Inr (False, ''Only SELECT queries are allowed'')"
    by (simp add: example_env_def startswith_def upper_def upper_char_def)
  have x: "dispatched (snd (execute_query example_env ''DROP TABLE users'' 7 start)) = []"
    by (simp add: execute_query_rejected[OF v] start_def)
  have p: "prepare_query_parameters
      ''SELECT COUNT(*) as total_rows FROM (DROP TABLE users) as subquery'' 7 =
      (''SELECT COUNT(*) as total_rows FROM (DROP TABLE users) as subquery'', [])"
    by code_simp
  have s: "dispatched (snd (get_query_statistics example_env ''DROP TABLE users'' 7 start)) =
       [(''SELECT COUNT(*) as total_rows FROM (DROP TABLE users) as subquery'', [])]"
    using get_query_statistics_dispatch[of example_env "''DROP TABLE users''" 7 start]
    by (simp add: p start_def)
  have d: "execute_query_with_validation example_env h t ps =
      Inr (ExecutionSuccess [[(''total_rows'', VInt 1)]] 1 [''total_rows''])" for h t ps
    by (simp add: example_env_def)
  have t: "fst (get_query_statistics example_env ''DROP TABLE users'' 7 start) ''success'' =
       Some (PBool True)"
    using p by (simp add: get_query_statistics_def get_query_statistics_body_def dispatch_def
        d now_def total_rows_of_def estimate_of_def)
  from get_query_statistics_dispatch[of e q uid w] get_query_statistics_ignores_guard[where e=e and g=g and q=q and uid=uid and w=w]
    get_query_statistics_no_rows[of e q uid w] v x s t
  show ?thesis by blast
qed

lemma keyword_loop_iff:
  "keyword_loop kws s =
     (\<forall>kw\<in>set kws. \<not> py_in ('' '' @ kw @ '' '') s \<and> \<not> startswith s (kw @ '' ''))"
  by (induction kws) auto

lemma validate_sql_structure_space_bounded:
  "kw \<in> set dangerous_keywords \<Longrightarrow> py_in ('' '' @ kw @ '' '') (upper q) \<Longrightarrow>
     \<not> validate_sql_structure q"
  by (auto simp: validate_sql_structure_def Let_def keyword_loop_iff)

text \<open>
  C5: the two keyword checks do not do what the claim says. \<open>_validate_sql_structure\<close>
  looks for a keyword between two space characters, so a keyword bounded by a newline is
  a standalone token that is not rejected. \<open>test_query_syntax\<close> looks for the keyword as
  a substring, so a query that selects the column \<open>created_at\<close> is reported as
  containing \<open>CREATE\<close> and as invalid, while \<open>_validate_sql_structure\<close> accepts it.
\<close>

theorem keyword_checks_miss_the_claim:
  "validate_sql_structure
     (''SELECT id FROM t WHERE user_id = %s;'' @ [CHR 0x0A] @ ''DROP TABLE t'') = True
   \<and> fst (test_query_syntax e ''SELECT created_at FROM events WHERE user_id = {user_id}'' w)
       ''dangerous_keywords'' = Some (PNames [''CREATE''])
   \<and> fst (test_query_syntax e ''SELECT created_at FROM events WHERE user_id = {user_id}'' w)
       ''syntax_valid'' = Some (PBool False)
   \<and> validate_sql_structure ''SELECT created_at FROM events WHERE user_id = %s'' = True"
proof -
  have a: "validate_sql_structure
     (''SELECT id FROM t WHERE user_id = %s;'' @ [CHR 0x0A] @ ''DROP TABLE t'') = True"
    by code_simp
  have f: "filter (\<lambda>kw. py_in kw
        (strip (upper ''SELECT created_at FROM events WHERE user_id = {user_id}'')))
      dangerous_keywords = [''CREATE'']"
    by code_simp
  have b: "fst (test_query_syntax e ''SELECT created_at FROM events WHERE user_id = {user_id}'' w)
       ''dangerous_keywords'' = Some (PNames [''CREATE''])"
    by (simp add: test_query_syntax_def Let_def split_beta f)
  have c: "fst (test_query_syntax e ''SELECT created_at FROM events WHERE user_id = {user_id}'' w)
       ''syntax_valid'' = Some (PBool False)"
    by (simp add: test_query_syntax_def Let_def split_beta f)
  have d: "validate_sql_structure ''SELECT created_at FROM events WHERE user_id = %s'' = True"
    by code_simp
  from a b c d show ?thesis by blast
qed

theorem statistics_bypass_guard_witness:
  "validate_query example_env ''DROP TABLE users'' 7 =
       Inr (False, ''Only SELECT queries are allowed'')
   \<and> dispatched (snd (execute_query example_env ''DROP TABLE users'' 7 start)) = []
   \<and> dispatched (snd (get_query_statistics example_env ''DROP TABLE users'' 7 start)) =
       [(''SELECT COUNT(*) as total_rows FROM (DROP TABLE users) as subquery'', [])]"
  using statistics_bypass_guard
    [where e = example_env and q = "''DROP TABLE users''" and uid = 7 and w = start
       and g = "validate_query example_env"]
  by blast

theorem keyword_checks_miss_the_claim_witness:
  "validate_sql_structure
     (''SELECT id FROM t WHERE user_id = %s;'' @ [CHR 0x0A] @ ''DROP TABLE t'') = True
   \<and> fst (test_query_syntax example_env
         ''SELECT created_at FROM events WHERE user_id = {user_id}'' start)
       ''dangerous_keywords'' = Some (PNames [''CREATE''])
   \<and> fst (test_query_syntax example_env
         ''SELECT created_at FROM events WHERE user_id = {user_id}'' start)
       ''syntax_valid'' = Some (PBool False)"
  using keyword_checks_miss_the_claim [where e = example_env and w = start]
  by blast

section \<open>Texts built from pieces\<close>

subsection \<open>Splitting, escaping and joining a concatenation\<close>

lemma py_split_append_pieces: "py_split (a @ d # b) d = py_split a d @ py_split b d"
proof (induction a)
  case Nil
  show ?case by simp
next
  case (Cons c cs)
  obtain p ps where ps: "py_split cs d = p # ps"
    by (cases "py_split cs d") auto
  from Cons ps show ?case by simp
qed

lemma length_py_split: "length (py_split s d) = Suc (count_list s d)"
proof (induction s)
  case Nil
  show ?case by simp
next
  case (Cons c cs)
  obtain p ps where ps: "py_split cs d = p # ps"
    by (cases "py_split cs d") auto
  from Cons ps show ?case by simp
qed

lemma escape_pieces_append_closed:
  "odd (length xs) \<Longrightarrow> ys \<noteq> [] \<Longrightarrow>
     escape_pieces (xs @ l # ys) = escape_pieces xs @ double_percent l # escape_pieces ys"
proof (induction xs rule: escape_pieces.induct)
  case (1 outside literal nxt rest)
  then show ?case by simp
qed (auto simp: neq_Nil_conv)

lemma escape_pieces_append_open:
  "odd (length xs) \<Longrightarrow> escape_pieces (xs @ [l]) = escape_pieces xs @ [l]"
proof (induction xs rule: escape_pieces.induct)
  case (1 outside literal nxt rest)
  then show ?case by simp
qed simp_all

lemma py_join_Cons: "ys \<noteq> [] \<Longrightarrow> py_join d (x # ys) = x @ d # py_join d ys"
  by (cases ys) simp_all

lemma py_join_append:
  "xs \<noteq> [] \<Longrightarrow> ys \<noteq> [] \<Longrightarrow> py_join d (xs @ ys) = py_join d xs @ d # py_join d ys"
proof (induction xs)
  case Nil
  then show ?case by simp
next
  case (Cons x xs)
  show ?case
  proof (cases "xs = []")
    case True
    with Cons.prems show ?thesis by (simp add: py_join_Cons)
  next
    case False
    with Cons show ?thesis by (simp add: py_join_Cons)
  qed
qed

lemma re_sub_literals_closed:
  assumes pre: "even (count_list pre quote)" and lit: "quote \<notin> set lit"
  shows "re_sub_literals (pre @ quote # lit @ quote # post) =
     re_sub_literals pre @ quote # double_percent lit @ quote # re_sub_literals post"
proof -
  have odd: "odd (length (py_split pre quote))"
    using pre by (simp add: length_py_split)
  have "py_split (pre @ quote # lit @ quote # post) quote =
      py_split pre quote @ lit # py_split post quote"
    using lit by (simp add: py_split_append_pieces py_split_no_sep)
  then have "re_sub_literals (pre @ quote # lit @ quote # post) =
      py_join quote (escape_pieces (py_split pre quote) @
        double_percent lit # escape_pieces (py_split post quote))"
    using odd by (simp add: re_sub_literals_pieces escape_pieces_append_closed)
  also have "\<dots> = py_join quote (escape_pieces (py_split pre quote)) @ quote #
      double_percent lit @ quote # py_join quote (escape_pieces (py_split post quote))"
    by (simp add: py_join_append py_join_Cons)
  finally show ?thesis
    by (simp add: re_sub_literals_pieces)
qed

lemma re_sub_literals_open:
  assumes pre: "even (count_list pre quote)" and post: "quote \<notin> set post"
  shows "re_sub_literals (pre @ quote # post) = re_sub_literals pre @ quote # post"
proof -
  have odd: "odd (length (py_split pre quote))"
    using pre by (simp add: length_py_split)
  have "py_split (pre @ quote # post) quote = py_split pre quote @ [post]"
    using post by (simp add: py_split_append_pieces py_split_no_sep)
  then have "re_sub_literals (pre @ quote # post) =
      py_join quote (escape_pieces (py_split pre quote) @ [post])"
    using odd by (simp add: re_sub_literals_pieces escape_pieces_append_open)
  also have "\<dots> = py_join quote (escape_pieces (py_split pre quote)) @ quote # post"
    by (simp add: py_join_append)
  finally show ?thesis
    by (simp add: re_sub_literals_pieces)
qed

lemma count_list_re_sub: "count_list (re_sub_literals s) quote = count_list s quote"
  using length_py_split[of "re_sub_literals s" quote] length_py_split[of s quote]
  by (simp add: split_re_sub)

subsection \<open>Replacing the scope marker in a concatenation\<close>

lemma prefix_no_straddle:
  assumes "prefix m (a @ y)" "y \<noteq> []" "hd y \<notin> set (tl m)" "a \<noteq> []"
  shows "prefix m a"
proof -
  from assms(1) consider "prefix m a" | us where "m = a @ us" "prefix us y"
    by (auto simp: prefix_append)
  then show ?thesis
  proof cases
    case 1
    then show ?thesis .
  next
    case 2
    show ?thesis
    proof (cases us)
      case Nil
      with 2 show ?thesis by simp
    next
      case (Cons u us')
      with 2 assms(2) have "hd y = u"
        by (cases y) auto
      moreover from 2 Cons assms(4) have "u \<in> set (tl m)"
        by (cases a) auto
      ultimately show ?thesis using assms(3) by simp
    qed
  qed
qed

lemma replace_scan_append:
  "y \<noteq> [] \<Longrightarrow> hd y \<notin> set (tl m) \<Longrightarrow>
     replace_scan m n (a @ y) = replace_scan m n a @ replace_scan m n y"
proof (induction m n a rule: replace_scan.induct)
  case (1 old new)
  show ?case by simp
next
  case (2 old new c cs)
  note y = "2.prems"
  show ?case
  proof (cases "old \<noteq> [] \<and> prefix old ((c # cs) @ y)")
    case True
    then have p: "prefix old (c # cs)"
      using prefix_no_straddle[of old "c # cs" y] y by simp
    then obtain r where r: "c # cs = old @ r"
      by (auto simp: prefix_def)
    then have d: "drop (length old) (c # cs) = r" "drop (length old) ((c # cs) @ y) = r @ y"
      by simp_all
    from "2.IH"(1) True p y have "replace_scan old new (drop (length old) (c # cs) @ y) =
        replace_scan old new (drop (length old) (c # cs)) @ replace_scan old new y"
      by simp
    with True p d show ?thesis
      using replace_scan.simps(2)[of old new c "cs @ y"] replace_scan.simps(2)[of old new c cs]
      by simp
  next
    case False
    then have np: "\<not> (old \<noteq> [] \<and> prefix old (c # cs))"
      using prefix_prefix[of old "c # cs" y] by blast
    with "2.IH"(2) y have ih: "replace_scan old new (cs @ y) =
        replace_scan old new cs @ replace_scan old new y"
      by simp
    from False have f: "(old \<noteq> [] \<and> prefix old (c # cs @ y)) = False"
      by simp
    from np have g: "(old \<noteq> [] \<and> prefix old (c # cs)) = False"
      by simp
    have "replace_scan old new ((c # cs) @ y) = c # replace_scan old new (cs @ y)"
      by (simp only: append_Cons replace_scan.simps f if_False)
    moreover have "replace_scan old new (c # cs) = c # replace_scan old new cs"
      by (simp only: replace_scan.simps g if_False)
    ultimately show ?thesis
      using ih by simp
  qed
qed

lemma replace_scan_quote_free:
  "quote \<notin> set n \<Longrightarrow> quote \<notin> set s \<Longrightarrow> quote \<notin> set (replace_scan m n s)"
proof (induction m n s rule: replace_scan.induct)
  case (1 old new)
  show ?case by simp
next
  case (2 old new c cs)
  have "set (drop (length old) (c # cs)) \<subseteq> set (c # cs)"
    by (rule set_drop_subset)
  with 2 show ?case by auto
qed

lemma count_list_append: "count_list (xs @ ys) x = count_list xs x + count_list ys x"
  by (induction xs) auto

lemma count_list_quote_free: "x \<notin> set xs \<Longrightarrow> count_list xs x = 0"
  by (induction xs) auto

lemma replace_scan_count_quote:
  "quote \<notin> set m \<Longrightarrow> quote \<notin> set n \<Longrightarrow>
     count_list (replace_scan m n s) quote = count_list s quote"
proof (induction m n s rule: replace_scan.induct)
  case (1 old new)
  show ?case by simp
next
  case (2 old new c cs)
  show ?case
  proof (cases "old \<noteq> [] \<and> prefix old (c # cs)")
    case True
    then obtain r where r: "c # cs = old @ r"
      by (auto simp: prefix_def)
    then have d: "drop (length old) (c # cs) = r"
      by simp
    from "2.IH"(1) True "2.prems" d
    have ih: "count_list (replace_scan old new r) quote = count_list r quote"
      by simp
    have "replace_scan old new (c # cs) = new @ replace_scan old new r"
      using True d replace_scan.simps(2)[of old new c cs] by simp
    then have "count_list (replace_scan old new (c # cs)) quote = count_list r quote"
      using ih "2.prems" by (simp add: count_list_append count_list_quote_free)
    also have "\<dots> = count_list (old @ r) quote"
      using "2.prems" by (simp add: count_list_append count_list_quote_free)
    finally show ?thesis
      using r by simp
  next
    case False
    then have f: "(old \<noteq> [] \<and> prefix old (c # cs)) = False"
      by simp
    have "replace_scan old new (c # cs) = c # replace_scan old new cs"
      by (simp only: replace_scan.simps f if_False)
    with "2.IH"(2) False "2.prems" show ?thesis by simp
  qed
qed

text \<open>The scope marker, its replacement, a quote before the rest and the marker before
  the rest.\<close>

lemma replace_marker_quote:
  "replace_scan ''{user_id}'' ''%s'' (a @ quote # b) =
     replace_scan ''{user_id}'' ''%s'' a @ quote # replace_scan ''{user_id}'' ''%s'' b"
proof -
  have "replace_scan ''{user_id}'' ''%s'' (a @ quote # b) =
      replace_scan ''{user_id}'' ''%s'' a @ replace_scan ''{user_id}'' ''%s'' (quote # b)"
    by (rule replace_scan_append) (simp_all add: quote_def)
  then show ?thesis by (simp add: quote_def)
qed

lemma replace_marker_marker:
  "replace_scan ''{user_id}'' ''%s'' (a @ ''{user_id}'' @ b) =
     replace_scan ''{user_id}'' ''%s'' a @ ''%s'' @ replace_scan ''{user_id}'' ''%s'' b"
proof -
  have "replace_scan ''{user_id}'' ''%s'' (a @ (''{user_id}'' @ b)) =
      replace_scan ''{user_id}'' ''%s'' a @ replace_scan ''{user_id}'' ''%s'' (''{user_id}'' @ b)"
    by (rule replace_scan_append) simp_all
  then show ?thesis by simp
qed

lemma py_replace_marker:
  "py_replace s ''{user_id}'' ''%s'' = replace_scan ''{user_id}'' ''%s'' s"
  by (simp add: py_replace_def)

subsection \<open>Counting placeholders in a concatenation\<close>

lemma prefix_placeholder_quote:
  "prefix ''%s'' (c # cs @ quote # y) = prefix ''%s'' (c # cs)"
  by (cases cs) (auto simp: quote_def)

lemma placeholders_by_parity_append_quote:
  "placeholders_by_parity inside (x @ quote # y) =
     placeholders_by_parity inside x +
     placeholders_by_parity (inside = odd (count_list x quote)) y"
proof (induction x arbitrary: inside)
  case Nil
  show ?case by simp
next
  case (Cons c cs)
  show ?case
  proof (cases "c = quote")
    case True
    with Cons[of "\<not> inside"] show ?thesis by auto
  next
    case False
    with Cons[of inside] show ?thesis
      by (cases inside) (simp_all add: prefix_placeholder_quote del: prefix_code)
  qed
qed

lemma placeholders_inside_literal:
  "quote \<notin> set s \<Longrightarrow> placeholders_by_parity True s = 0"
  by (induction s) auto

lemma prepare_eq:
  "prepare_query_parameters q uid =
     (re_sub_literals (replace_scan ''{user_id}'' ''%s'' q),
      replicate (placeholders_by_parity False
        (re_sub_literals (replace_scan ''{user_id}'' ''%s'' q))) uid)"
  using params_scan[of q uid] fst_prepare[of q uid]
  by (simp add: py_replace_marker prod_eq_iff)

section \<open>The scope marker inside a literal, and unbalanced quotes\<close>

lemma prepare_marker_in_literal:
  assumes pre: "even (count_list pre quote)" and a: "quote \<notin> set a" and b: "quote \<notin> set b"
  shows "prepare_query_parameters (pre @ quote # a @ ''{user_id}'' @ b @ quote # post) uid =
     (fst (prepare_query_parameters pre uid) @ quote #
        double_percent (py_replace a ''{user_id}'' ''%s'') @ ''%%s'' @
        double_percent (py_replace b ''{user_id}'' ''%s'') @ quote #
        fst (prepare_query_parameters post uid),
      snd (prepare_query_parameters pre uid) @ snd (prepare_query_parameters post uid))"
proof -
  define R where "R = replace_scan ''{user_id}'' ''%s''"
  define lit where "lit = R a @ ''%s'' @ R b"
  have q: "quote \<notin> set lit"
    using replace_scan_quote_free[of "''%s''" a "''{user_id}''"]
      replace_scan_quote_free[of "''%s''" b "''{user_id}''"] a b
    by (simp add: lit_def R_def quote_def)
  have pre': "even (count_list (R pre) quote)"
    using pre replace_scan_count_quote[of "''{user_id}''" "''%s''" pre]
    by (simp add: R_def quote_def)
  have s1: "R (pre @ quote # a @ ''{user_id}'' @ b @ quote # post) =
      R pre @ quote # R (a @ ''{user_id}'' @ b @ quote # post)"
    unfolding R_def by (rule replace_marker_quote)
  have s2: "R (a @ ''{user_id}'' @ b @ quote # post) = R a @ ''%s'' @ R (b @ quote # post)"
    unfolding R_def by (rule replace_marker_marker)
  have s3: "R (b @ quote # post) = R b @ quote # R post"
    unfolding R_def by (rule replace_marker_quote)
  have r: "R (pre @ quote # a @ ''{user_id}'' @ b @ quote # post) =
      R pre @ quote # lit @ quote # R post"
    unfolding s1 s2 s3 lit_def by simp
  have e: "re_sub_literals (R pre @ quote # lit @ quote # R post) =
      re_sub_literals (R pre) @ quote # double_percent lit @ quote # re_sub_literals (R post)"
    by (rule re_sub_literals_closed[OF pre' q])
  have dl: "double_percent lit = double_percent (R a) @ ''%%s'' @ double_percent (R b)"
    by (simp add: lit_def double_percent_def)
  have qd: "quote \<notin> set (double_percent lit)"
    by (rule double_percent_quote[OF q])
  have ev: "even (count_list (re_sub_literals (R pre)) quote)"
    using pre' by (simp add: count_list_re_sub)
  have n: "placeholders_by_parity False
      (re_sub_literals (R pre) @ quote # double_percent lit @ quote # re_sub_literals (R post)) =
      placeholders_by_parity False (re_sub_literals (R pre)) +
      placeholders_by_parity False (re_sub_literals (R post))"
    using ev qd
    by (simp add: placeholders_by_parity_append_quote placeholders_inside_literal
        count_list_quote_free)
  show ?thesis
    unfolding prepare_eq py_replace_marker R_def[symmetric] fst_conv snd_conv r e n
    by (simp add: replicate_add dl)
qed

lemma prepare_unbalanced:
  assumes pre: "even (count_list pre quote)" and post: "quote \<notin> set post"
  shows "prepare_query_parameters (pre @ quote # post) uid =
     (fst (prepare_query_parameters pre uid) @ quote # py_replace post ''{user_id}'' ''%s'',
      snd (prepare_query_parameters pre uid))"
proof -
  define R where "R = replace_scan ''{user_id}'' ''%s''"
  have q: "quote \<notin> set (R post)"
    using replace_scan_quote_free[of "''%s''" post "''{user_id}''"] post
    by (simp add: R_def quote_def)
  have pre': "even (count_list (R pre) quote)"
    using pre replace_scan_count_quote[of "''{user_id}''" "''%s''" pre]
    by (simp add: R_def quote_def)
  have r: "R (pre @ quote # post) = R pre @ quote # R post"
    unfolding R_def by (rule replace_marker_quote)
  have e: "re_sub_literals (R pre @ quote # R post) = re_sub_literals (R pre) @ quote # R post"
    by (rule re_sub_literals_open[OF pre' q])
  have ev: "even (count_list (re_sub_literals (R pre)) quote)"
    using pre' by (simp add: count_list_re_sub)
  have n: "placeholders_by_parity False (re_sub_literals (R pre) @ quote # R post) =
      placeholders_by_parity False (re_sub_literals (R pre))"
    using ev q by (simp add: placeholders_by_parity_append_quote placeholders_inside_literal)
  show ?thesis
    unfolding prepare_eq py_replace_marker R_def[symmetric] fst_conv snd_conv r e n
    by simp
qed

text \<open>
  C10: when the scope marker stands inside a literal delimited by two single quotes, it
  is replaced by the placeholder token first and the escaping step then doubles its
  percent sign: in the returned template the literal reads \<open>%%s\<close> where the marker was,
  and the occurrence adds no element to the parameter sequence, which is that of the text
  before the literal followed by that of the text after it.
\<close>

theorem marker_inside_literal_is_escaped:
  "even (count_list pre quote) \<Longrightarrow> quote \<notin> set a \<Longrightarrow> quote \<notin> set b \<Longrightarrow>
     prepare_query_parameters (pre @ quote # a @ ''{user_id}'' @ b @ quote # post) uid =
       (fst (prepare_query_parameters pre uid) @ quote #
          double_percent (py_replace a ''{user_id}'' ''%s'') @ ''%%s'' @
          double_percent (py_replace b ''{user_id}'' ''%s'') @ quote #
          fst (prepare_query_parameters post uid),
        snd (prepare_query_parameters pre uid) @ snd (prepare_query_parameters post uid))
   \<and> prepare_query_parameters
        (''SELECT n FROM t WHERE user_id = {user_id} AND note = '{user_id}'' @ [quote]) uid =
       (''SELECT n FROM t WHERE user_id = %s AND note = '%%s'' @ [quote], [uid])"
proof -
  assume h: "even (count_list pre quote)" "quote \<notin> set a" "quote \<notin> set b"
  have ex: "prepare_query_parameters
        (''SELECT n FROM t WHERE user_id = {user_id} AND note = '{user_id}'' @ [quote]) uid =
       (''SELECT n FROM t WHERE user_id = %s AND note = '%%s'' @ [quote], [uid])"
    by code_simp
  from prepare_marker_in_literal[OF h] ex show ?thesis by (rule conjI)
qed

theorem marker_inside_literal_is_escaped_witness:
  "even (count_list ''SELECT n FROM t WHERE user_id = {user_id} AND note = '' quote)
   \<and> prepare_query_parameters
        (''SELECT n FROM t WHERE user_id = {user_id} AND note = '' @ quote # ''it is ''
           @ ''{user_id}'' @ ''!'' @ quote # '' LIMIT 5'') 7 =
       (''SELECT n FROM t WHERE user_id = %s AND note = '' @ quote # ''it is %%s!'' @ quote #
          '' LIMIT 5'', [7])"
proof -
  have c: "even (count_list ''SELECT n FROM t WHERE user_id = {user_id} AND note = '' quote)"
    by code_simp
  have a: "quote \<notin> set ''it is ''"
    by (simp add: quote_def)
  have b: "quote \<notin> set ''!''"
    by (simp add: quote_def)
  have pre: "prepare_query_parameters ''SELECT n FROM t WHERE user_id = {user_id} AND note = '' 7
      = (''SELECT n FROM t WHERE user_id = %s AND note = '', [7])"
    by code_simp
  have post: "prepare_query_parameters '' LIMIT 5'' 7 = ('' LIMIT 5'', [])"
    by code_simp
  have da: "double_percent (py_replace ''it is '' ''{user_id}'' ''%s'') = ''it is ''"
    by code_simp
  have db: "double_percent (py_replace ''!'' ''{user_id}'' ''%s'') = ''!''"
    by code_simp
  note t = marker_inside_literal_is_escaped [OF c a b, of "'' LIMIT 5''" 7, THEN conjunct1]
  have "prepare_query_parameters
        (''SELECT n FROM t WHERE user_id = {user_id} AND note = '' @ quote # ''it is ''
           @ ''{user_id}'' @ ''!'' @ quote # '' LIMIT 5'') 7 =
       (''SELECT n FROM t WHERE user_id = %s AND note = '' @ quote # ''it is %%s!'' @ quote #
          '' LIMIT 5'', [7])"
    unfolding t pre post da db fst_conv snd_conv by simp
  with c show ?thesis by (rule conjI)
qed

text \<open>
  C7, as it stands, fails: a query with one single quote is not rejected. It is
  prepared like any other text and, when the guard accepts it, dispatched to the driver.
\<close>

theorem unbalanced_quote_is_dispatched:
  "odd (count_list ''SELECT n FROM t WHERE user_id = {user_id} AND name = 'ab%'' quote)
   \<and> prepare_query_parameters
        ''SELECT n FROM t WHERE user_id = {user_id} AND name = 'ab%'' 7 =
       (''SELECT n FROM t WHERE user_id = %s AND name = 'ab%'', [7])
   \<and> fst (execute_query example_env
        ''SELECT n FROM t WHERE user_id = {user_id} AND name = 'ab%'' 7 start) ''success'' =
       Some (PBool True)
   \<and> dispatched (snd (execute_query example_env
        ''SELECT n FROM t WHERE user_id = {user_id} AND name = 'ab%'' 7 start)) =
       [(''SELECT n FROM t WHERE user_id = %s AND name = 'ab%'', [7])]"
proof -
  have c: "odd (count_list ''SELECT n FROM t WHERE user_id = {user_id} AND name = 'ab%'' quote)"
    by code_simp
  have p: "prepare_query_parameters
        ''SELECT n FROM t WHERE user_id = {user_id} AND name = 'ab%'' 7 =
       (''SELECT n FROM t WHERE user_id = %s AND name = 'ab%'', [7])"
    by code_simp
  have v: "validate_query example_env
        ''SELECT n FROM t WHERE user_id = {user_id} AND name = 'ab%'' 7 = Inr (True, ''ok'')"
    by (simp add: example_env_def startswith_def upper_def upper_char_def)
  have d: "execute_query_with_validation example_env h t ps =
      Inr (ExecutionSuccess [[(''total_rows'', VInt 1)]] 1 [''total_rows''])" for h t ps
    by (simp add: example_env_def)
  have s: "fst (execute_query example_env
        ''SELECT n FROM t WHERE user_id = {user_id} AND name = 'ab%'' 7 start) ''success'' =
       Some (PBool True)"
    by (simp add: execute_query_def execute_query_body_def v p d dispatch_def now_def)
  have l: "dispatched (snd (execute_query example_env
        ''SELECT n FROM t WHERE user_id = {user_id} AND name = 'ab%'' 7 start)) =
       [(''SELECT n FROM t WHERE user_id = %s AND name = 'ab%'', [7])]"
    using execute_query_accepted_dispatch[OF v, of start] by (simp add: p start_def)
  from c p s l show ?thesis by blast
qed

text \<open>
  C7, amended: an odd number of quotes is neither detected nor rejected. For a text
  whose last quote is unpaired, \<open>_prepare_query_parameters\<close> returns a template and
  parameters as for any text: the part before that quote is treated as usual, the quote
  and the text after it are passed through with only the scope marker replaced, no
  percent sign doubled, and add no parameters; when the guard accepts the query,
  \<open>execute_query\<close> dispatches exactly this template and these parameters.
\<close>

theorem unbalanced_quote_passes_through:
  "even (count_list pre quote) \<Longrightarrow> quote \<notin> set post \<Longrightarrow>
     odd (count_list (pre @ quote # post) quote)
   \<and> prepare_query_parameters (pre @ quote # post) uid =
       (fst (prepare_query_parameters pre uid) @ quote # py_replace post ''{user_id}'' ''%s'',
        snd (prepare_query_parameters pre uid))
   \<and> (validate_query e (pre @ quote # post) uid = Inr (True, reason) \<longrightarrow>
        dispatched (snd (execute_query e (pre @ quote # post) uid w)) =
          dispatched w @ [prepare_query_parameters (pre @ quote # post) uid])"
proof -
  assume h: "even (count_list pre quote)" "quote \<notin> set post"
  have o: "odd (count_list (pre @ quote # post) quote)"
    using h by (simp add: count_list_append count_list_quote_free)
  have d: "validate_query e (pre @ quote # post) uid = Inr (True, reason) \<longrightarrow>
        dispatched (snd (execute_query e (pre @ quote # post) uid w)) =
          dispatched w @ [prepare_query_parameters (pre @ quote # post) uid]"
    by (auto dest: execute_query_accepted_dispatch)
  from o prepare_unbalanced[OF h] d show ?thesis by blast
qed

theorem unbalanced_quote_passes_through_witness:
  "even (count_list ''SELECT n FROM t WHERE user_id = {user_id} AND name = '' quote)
   \<and> quote \<notin> set ''ab%''
   \<and> prepare_query_parameters
        (''SELECT n FROM t WHERE user_id = {user_id} AND name = '' @ quote # ''ab%'') 7 =
       (''SELECT n FROM t WHERE user_id = %s AND name = '' @ quote # ''ab%'', [7])"
proof -
  have c: "even (count_list ''SELECT n FROM t WHERE user_id = {user_id} AND name = '' quote)"
    by code_simp
  have b: "quote \<notin> set ''ab%''"
    by (simp add: quote_def)
  have pre: "prepare_query_parameters ''SELECT n FROM t WHERE user_id = {user_id} AND name = '' 7
      = (''SELECT n FROM t WHERE user_id = %s AND name = '', [7])"
    by code_simp
  have r: "py_replace ''ab%'' ''{user_id}'' ''%s'' = ''ab%''"
    by code_simp
  note t = unbalanced_quote_passes_through
    [OF c b, of 7 example_env "''ok''" start, THEN conjunct2, THEN conjunct1]
  have "prepare_query_parameters
        (''SELECT n FROM t WHERE user_id = {user_id} AND name = '' @ quote # ''ab%'') 7 =
       (''SELECT n FROM t WHERE user_id = %s AND name = '' @ quote # ''ab%'', [7])"
    unfolding t pre r fst_conv snd_conv by simp
  with c b show ?thesis by blast
qed

section \<open>The parameter count and literal spans\<close>










end
